theory Spec2Isabelle
  imports Main "HOL-Library.Word"
begin

unbundle bit_operations_syntax

section \<open>Common types\<close>

text \<open>
  Object identifiers (\<open>oid_t\<close>, called \<open>id_t\<close> in the older storage code) are 32-bit
  unsigned integers; transaction ids and commit ids are 64-bit unsigned integers.
  \<open>START_OID\<close> is the first object id, \<open>INVALID_TXN_ID\<close> is zero.
\<close>

type_synonym oid_t = "32 word"
type_synonym txn_id_t = "64 word"
type_synonym cid_t = "64 word"
type_synonym byte = "8 word"

definition START_OID :: oid_t where
  "START_OID = 0"

definition INVALID_TXN_ID :: txn_id_t where
  "INVALID_TXN_ID = 0"

text \<open>
  \<open>oid_range i n\<close> is the ascending list of the ids from \<open>i\<close> up to but excluding \<open>n\<close>:
  the values a counter takes in \<open>for (oid_t k = i; k < n; k++)\<close>.
\<close>

definition oid_range :: "oid_t \<Rightarrow> oid_t \<Rightarrow> oid_t list" where
  "oid_range i n = map of_nat [unat i..<unat n]"

text \<open>
  Every way in which a call can fail to return: a failed \<open>assert\<close>, a thrown
  \<open>SerializationException\<close>, an error raised by the expression evaluator, and an index
  beyond the end of a vector (\<open>OutOfRange\<close>) and a variable-length array that does not
  fit on the stack, which ends the process (\<open>StackOverflow\<close>). \<open>AllocationError\<close> is the
  error kind the specification names for a failed allocation.
\<close>

datatype error =
    AssertionFailure
  | SerializationException
  | ExpressionError
  | AllocationError
  | OutOfRange
  | StackOverflow

section \<open>Tri-valued predicate results\<close>

text \<open>
  Modelled from the spec: the \<open>Value\<close> class returned by \<open>Evaluate\<close> is not part of the
  sources. A predicate result is true, false or null; \<open>IsTrue\<close> means strictly true,
  \<open>IsFalse\<close> means strictly false, and the null case is neither.
\<close>

datatype TriValue = TriTrue | TriFalse | TriNull

fun IsTrue :: "TriValue \<Rightarrow> bool" where
  "IsTrue TriTrue = True"
| "IsTrue TriFalse = False"
| "IsTrue TriNull = False"

fun IsFalse :: "TriValue \<Rightarrow> bool" where
  "IsFalse TriTrue = False"
| "IsFalse TriFalse = True"
| "IsFalse TriNull = False"

section \<open>Tile group header, tile group, data table\<close>

text \<open>
  Modelled from the spec: \<open>TileGroupHeader\<close> is not part of the sources. Each slot
  carries the id of the transaction holding it and the commit ids between which the
  tuple is visible. A slot is visible to an observer when the observer owns it, or when
  it is unlocked, was committed no later than the observer's last commit id and is not
  yet ended at that commit id.
\<close>

record SlotHeader =
  tuple_txn_id :: txn_id_t
  begin_cid :: cid_t
  end_cid :: cid_t

record TileGroupHeader =
  slot_headers :: "oid_t \<Rightarrow> SlotHeader"
  next_free_slot :: oid_t

definition IsVisible :: "TileGroupHeader \<Rightarrow> oid_t \<Rightarrow> txn_id_t \<Rightarrow> cid_t \<Rightarrow> bool" where
  "IsVisible hdr tuple_slot_id txn_id at_lcid =
     (let s = slot_headers hdr tuple_slot_id in
      tuple_txn_id s = txn_id \<or>
      (tuple_txn_id s = INVALID_TXN_ID \<and> begin_cid s \<le> at_lcid \<and> at_lcid < end_cid s))"

text \<open>
  Modelled from the spec: \<open>TileGroup\<close> and \<open>DataTable\<close> are not part of the sources.
  A tile group owns a header and its tiles and routes a column id to a pair (tile
  offset, column inside that tile); the next tuple slot is the header's allocation
  cursor. A table hands out its tile groups by offset. The type \<open>'tile\<close> stands for
  whatever a base tile is: the scan only passes tiles on.
\<close>

record 'tile TileGroup =
  group_header :: TileGroupHeader
  column_map :: "oid_t \<Rightarrow> oid_t \<times> oid_t"
  tiles :: "oid_t \<Rightarrow> 'tile"

definition GetHeader :: "'tile TileGroup \<Rightarrow> TileGroupHeader" where
  "GetHeader tg = group_header tg"

definition GetNextTupleSlot :: "'tile TileGroup \<Rightarrow> oid_t" where
  "GetNextTupleSlot tg = next_free_slot (group_header tg)"

definition LocateTileAndColumn :: "'tile TileGroup \<Rightarrow> oid_t \<Rightarrow> oid_t \<times> oid_t" where
  "LocateTileAndColumn tg column_id = column_map tg column_id"

definition GetTile :: "'tile TileGroup \<Rightarrow> oid_t \<Rightarrow> 'tile" where
  "GetTile tg tile_offset = tiles tg tile_offset"

record 'tile DataTable =
  tile_group_count :: oid_t
  tile_groups :: "oid_t \<Rightarrow> 'tile TileGroup"
  schema_column_count :: oid_t

definition GetTileGroupCount :: "'tile DataTable \<Rightarrow> oid_t" where
  "GetTileGroupCount tbl = tile_group_count tbl"

definition GetTileGroup :: "'tile DataTable \<Rightarrow> oid_t \<Rightarrow> 'tile TileGroup" where
  "GetTileGroup tbl tile_group_offset = tile_groups tbl tile_group_offset"

section \<open>Logical tiles\<close>

text \<open>
  Modelled from the spec: \<open>LogicalTile\<close> and \<open>LogicalTileFactory\<close> are not part of the
  sources. A logical tile has position lists, a visibility bit per position (all set
  when the first position list arrives) and column bindings. \<open>AddPositionList\<close> appends a
  list, \<open>AddColumn\<close> records a binding, \<open>RemoveVisibility\<close> clears one bit, and iteration
  yields the positions whose bit is set.
\<close>

record 'tile ColumnInfo =
  base_tile :: 'tile
  own_base_tile :: bool
  origin_column_id :: oid_t
  position_list_idx :: nat

record 'tile LogicalTile =
  position_lists :: "oid_t list list"
  visible_rows :: "bool list"
  columns :: "'tile ColumnInfo list"

definition LogicalTileFactory_GetTile :: "'tile LogicalTile" where
  "LogicalTileFactory_GetTile = \<lparr>position_lists = [], visible_rows = [], columns = []\<rparr>"

definition AddPositionList :: "'tile LogicalTile \<Rightarrow> oid_t list \<Rightarrow> 'tile LogicalTile" where
  "AddPositionList lt position_list =
     lt\<lparr>position_lists := position_lists lt @ [position_list],
        visible_rows := (if position_lists lt = []
                         then replicate (length position_list) True
                         else visible_rows lt)\<rparr>"

definition AddColumn ::
  "'tile LogicalTile \<Rightarrow> 'tile \<Rightarrow> bool \<Rightarrow> oid_t \<Rightarrow> nat \<Rightarrow> 'tile LogicalTile" where
  "AddColumn lt tile own col idx =
     lt\<lparr>columns := columns lt @
        [\<lparr>base_tile = tile, own_base_tile = own, origin_column_id = col,
          position_list_idx = idx\<rparr>]\<rparr>"

definition IsPositionVisible :: "'tile LogicalTile \<Rightarrow> oid_t \<Rightarrow> bool" where
  "IsPositionVisible lt tuple_id =
     (unat tuple_id < length (visible_rows lt) \<and> visible_rows lt ! unat tuple_id)"

definition RemoveVisibility :: "'tile LogicalTile \<Rightarrow> oid_t \<Rightarrow> 'tile LogicalTile" where
  "RemoveVisibility lt tuple_id =
     lt\<lparr>visible_rows := (visible_rows lt)[unat tuple_id := False]\<rparr>"

text \<open>All positions of a logical tile, in ascending order.\<close>

definition all_positions :: "'tile LogicalTile \<Rightarrow> oid_t list" where
  "all_positions lt = map of_nat [0..<length (visible_rows lt)]"

section \<open>Expressions\<close>

text \<open>
  The expression evaluator is an external collaborator: a predicate is any function
  from a tuple facade to either an error or a tri-valued result. A \<open>ContainerTuple\<close> is
  a tuple facade over a tile group slot or over a logical tile position.
\<close>

datatype 'tile ContainerTuple =
    TileGroupTuple "'tile TileGroup" oid_t
  | LogicalTileTuple "'tile LogicalTile" oid_t

type_synonym 'tile expression = "'tile ContainerTuple \<Rightarrow> error + TriValue"

section \<open>Sequential scan executor\<close>

text \<open>
  The executor state. A child executor is represented by the logical tiles it still has
  to produce: its \<open>Execute\<close> returns false on the empty stream and otherwise makes the
  first tile its output. \<open>plan_table\<close> is the table of the plan node, \<open>txn_id\<close> and
  \<open>last_commit_id\<close> are read from the transaction of the executor context.
\<close>

record 'tile SeqScanExecutor =
  children :: "'tile LogicalTile list list"
  predicate :: "'tile expression option"
  column_ids :: "oid_t list"
  target_table :: "'tile DataTable option"
  current_tile_group_offset :: oid_t
  table_tile_group_count :: oid_t
  plan_table :: "'tile DataTable option"
  ctx_txn_id :: txn_id_t
  ctx_last_commit_id :: cid_t
  output_tile :: "'tile LogicalTile option"

text \<open>
  \<open>DInit\<close> runs the initialisation of the base class first, which is not part of the
  sources: it binds the predicate and the column ids of the plan node, here the fields
  \<open>predicate\<close> and \<open>column_ids\<close>, and is taken to succeed. The tile group offset then
  restarts at \<open>START_OID\<close>.
\<close>

definition DInit :: "'tile SeqScanExecutor \<Rightarrow> bool \<times> 'tile SeqScanExecutor" where
  "DInit ex = (True, ex\<lparr>current_tile_group_offset := START_OID\<rparr>)"

text \<open>
  The loop of the one-child mode over the positions of the child's tile. The iterator
  of a logical tile skips a position whose bit is cleared; the predicate sees the tile
  as it is at that moment.
\<close>

fun filter_logical_tile ::
  "'tile expression \<Rightarrow> oid_t list \<Rightarrow> 'tile LogicalTile \<Rightarrow> error + 'tile LogicalTile" where
  "filter_logical_tile pred [] tile = Inr tile"
| "filter_logical_tile pred (tuple_id # rest) tile =
     (if IsPositionVisible tile tuple_id then
        (case pred (LogicalTileTuple tile tuple_id) of
           Inl e \<Rightarrow> Inl e
         | Inr v \<Rightarrow>
             if IsFalse v
             then filter_logical_tile pred rest (RemoveVisibility tile tuple_id)
             else filter_logical_tile pred rest tile)
      else filter_logical_tile pred rest tile)"

text \<open>
  The loop of the base-table mode: \<open>tuple_id\<close> runs from its start value up to
  \<open>active_tuple_count\<close>, an invisible slot is skipped before the predicate is looked at,
  and a slot is appended to the position list when there is no predicate or the
  predicate is strictly true.
\<close>

function build_position_list ::
  "'tile expression option \<Rightarrow> 'tile TileGroup \<Rightarrow> txn_id_t \<Rightarrow> cid_t \<Rightarrow> oid_t \<Rightarrow> oid_t \<Rightarrow>
   oid_t list \<Rightarrow> error + oid_t list" where
  "build_position_list pred tg txn_id commit_id active_tuple_count tuple_id position_list =
     (if tuple_id < active_tuple_count then
        (if IsVisible (GetHeader tg) tuple_id txn_id commit_id = False
         then build_position_list pred tg txn_id commit_id active_tuple_count
                (tuple_id + 1) position_list
         else
           (case pred of
              None \<Rightarrow> build_position_list pred tg txn_id commit_id active_tuple_count
                        (tuple_id + 1) (position_list @ [tuple_id])
            | Some p \<Rightarrow>
                (case p (TileGroupTuple tg tuple_id) of
                   Inl e \<Rightarrow> Inl e
                 | Inr v \<Rightarrow>
                     if IsTrue v
                     then build_position_list pred tg txn_id commit_id active_tuple_count
                            (tuple_id + 1) (position_list @ [tuple_id])
                     else build_position_list pred tg txn_id commit_id active_tuple_count
                            (tuple_id + 1) position_list)))
      else Inr position_list)"
  by pat_completeness auto
termination
proof (relation "measure (\<lambda>(pred, tg, txn_id, commit_id, n, i, acc). unat n - unat i)")
  show "wf (measure (\<lambda>(pred :: 'a expression option, tg :: 'a TileGroup, txn_id :: txn_id_t,
              commit_id :: cid_t, n :: oid_t, i :: oid_t, acc :: oid_t list). unat n - unat i))"
    by simp
qed (simp_all, unat_arith+)

declare build_position_list.simps [simp del]

text \<open>The loop that adds one column binding per requested column id.\<close>

fun add_columns ::
  "'tile TileGroup \<Rightarrow> oid_t list \<Rightarrow> 'tile LogicalTile \<Rightarrow> 'tile LogicalTile" where
  "add_columns tg [] logical_tile = logical_tile"
| "add_columns tg (column_id # rest) logical_tile =
     (let (base_tile_offset, tile_column_id) = LocateTileAndColumn tg column_id
      in add_columns tg rest
           (AddColumn logical_tile (GetTile tg base_tile_offset) False tile_column_id 0))"

text \<open>
  \<open>DExecute\<close>: with one child the child's next tile is filtered by the predicate; with
  no child the next tile group of the table is scanned; with more children nothing
  happens and true is returned.
\<close>

definition DExecute ::
  "'tile SeqScanExecutor \<Rightarrow> error + (bool \<times> 'tile SeqScanExecutor)" where
  "DExecute ex =
     (if length (children ex) = 1 then
        (if target_table ex \<noteq> None then Inl AssertionFailure
         else
           (case children ex ! 0 of
              [] \<Rightarrow> Inr (False, ex)
            | child_output # child_rest \<Rightarrow>
                (let ex1 = ex\<lparr>children := [child_rest]\<rparr> in
                 case predicate ex of
                   None \<Rightarrow> Inr (True, ex1\<lparr>output_tile := Some child_output\<rparr>)
                 | Some p \<Rightarrow>
                     (case filter_logical_tile p (all_positions child_output) child_output of
                        Inl e \<Rightarrow> Inl e
                      | Inr tile \<Rightarrow> Inr (True, ex1\<lparr>output_tile := Some tile\<rparr>)))))
      else if length (children ex) = 0 then
        (case plan_table ex of
           None \<Rightarrow> Inl AssertionFailure
         | Some tbl \<Rightarrow>
             (let ex1 = ex\<lparr>target_table := Some tbl,
                           table_tile_group_count := GetTileGroupCount tbl\<rparr>;
                  ex2 = (if column_ids ex1 = []
                         then ex1\<lparr>column_ids :=
                                map of_nat [0..<unat (schema_column_count tbl)]\<rparr>
                         else ex1)
              in
              if current_tile_group_offset ex2 = table_tile_group_count ex2
              then Inr (False, ex2)
              else
                (let tile_group = GetTileGroup tbl (current_tile_group_offset ex2);
                     ex3 = ex2\<lparr>current_tile_group_offset :=
                                 current_tile_group_offset ex2 + 1\<rparr>;
                     active_tuple_count = GetNextTupleSlot tile_group
                 in
                 case build_position_list (predicate ex3) tile_group (ctx_txn_id ex3)
                        (ctx_last_commit_id ex3) active_tuple_count 0 [] of
                   Inl e \<Rightarrow> Inl e
                 | Inr position_list \<Rightarrow>
                     (let logical_tile =
                            add_columns tile_group (column_ids ex3)
                              (AddPositionList LogicalTileFactory_GetTile position_list)
                      in Inr (True, ex3\<lparr>output_tile := Some logical_tile\<rparr>)))))
      else Inr (True, ex))"

section \<open>Specification of the scan\<close>

text \<open>The following definitions state what the scan is expected to produce.\<close>

text \<open>The result of the optional predicate on a slot; no predicate counts as true.\<close>

definition eval_predicate :: "'tile expression option \<Rightarrow> 'tile TileGroup \<Rightarrow> oid_t \<Rightarrow> error + TriValue" where
  "eval_predicate pred tg s = (case pred of None \<Rightarrow> Inr TriTrue | Some p \<Rightarrow> p (TileGroupTuple tg s))"

text \<open>
  A slot is retained when it is visible to the observer and the predicate is absent or
  strictly true on it.
\<close>

definition retained :: "'tile expression option \<Rightarrow> 'tile TileGroup \<Rightarrow> txn_id_t \<Rightarrow> cid_t \<Rightarrow> oid_t \<Rightarrow> bool" where
  "retained pred tg txn_id commit_id s =
     (IsVisible (GetHeader tg) s txn_id commit_id \<and>
      (case pred of None \<Rightarrow> True
       | Some p \<Rightarrow> (case p (TileGroupTuple tg s) of Inl e \<Rightarrow> False | Inr v \<Rightarrow> IsTrue v)))"

text \<open>The retained slots of a tile group below its next tuple slot, in ascending order.\<close>

definition visible_matching_slots ::
  "'tile expression option \<Rightarrow> 'tile TileGroup \<Rightarrow> txn_id_t \<Rightarrow> cid_t \<Rightarrow> oid_t list" where
  "visible_matching_slots pred tg txn_id commit_id =
     filter (retained pred tg txn_id commit_id) (oid_range 0 (GetNextTupleSlot tg))"

text \<open>
  The framework re-enters \<open>DExecute\<close> until it returns false and collects the output of
  every call that returned true. \<open>fuel\<close> bounds the number of calls; \<open>None\<close> means the
  bound was reached before the executor was exhausted.
\<close>

fun run_executor ::
  "nat \<Rightarrow> 'tile SeqScanExecutor \<Rightarrow> (error + 'tile LogicalTile option list) option" where
  "run_executor 0 ex = None"
| "run_executor (Suc fuel) ex =
     (case DExecute ex of
        Inl e \<Rightarrow> Some (Inl e)
      | Inr (has_output, ex') \<Rightarrow>
          if has_output then
            (case run_executor fuel ex' of
               None \<Rightarrow> None
             | Some (Inl e) \<Rightarrow> Some (Inl e)
             | Some (Inr outs) \<Rightarrow> Some (Inr (output_tile ex' # outs)))
          else Some (Inr []))"

text \<open>The column ids after a call: all columns of the schema if none were requested.\<close>

definition fill_column_ids :: "'tile SeqScanExecutor \<Rightarrow> 'tile DataTable \<Rightarrow> oid_t list" where
  "fill_column_ids ex tbl =
     (if column_ids ex = [] then map of_nat [0..<unat (schema_column_count tbl)]
      else column_ids ex)"

text \<open>The predicate returns a value (raises no error) on every visible active slot.\<close>

definition predicate_defined ::
  "'tile expression option \<Rightarrow> 'tile TileGroup \<Rightarrow> txn_id_t \<Rightarrow> cid_t \<Rightarrow> bool" where
  "predicate_defined pred tg txn_id commit_id =
     (\<forall>s. s < GetNextTupleSlot tg \<longrightarrow> IsVisible (GetHeader tg) s txn_id commit_id \<longrightarrow>
          (\<exists>v. eval_predicate pred tg s = Inr v))"

text \<open>Two predicates agree on every slot of the table that is visible to the observer.\<close>

definition agree_on_visible ::
  "'tile expression \<Rightarrow> 'tile expression \<Rightarrow> 'tile DataTable \<Rightarrow> txn_id_t \<Rightarrow> cid_t \<Rightarrow> bool" where
  "agree_on_visible p q tbl txn_id commit_id =
     (\<forall>k s. IsVisible (GetHeader (GetTileGroup tbl k)) s txn_id commit_id \<longrightarrow>
            p (TileGroupTuple (GetTileGroup tbl k) s) = q (TileGroupTuple (GetTileGroup tbl k) s))"

subsection \<open>Example scans\<close>

text \<open>
  Modelled from the spec: \<open>MAX_CID\<close> is the largest commit id. The example table has one
  tile group of four slots committed at commit id 1, except slot 2, which is held
  uncommitted by transaction 77; the observer is transaction 99 at commit id 10.
\<close>

definition MAX_CID :: cid_t where
  "MAX_CID = - 1"

definition example_header :: TileGroupHeader where
  "example_header =
     \<lparr>slot_headers = (\<lambda>s. if s = 2
                           then \<lparr>tuple_txn_id = 77, begin_cid = MAX_CID, end_cid = MAX_CID\<rparr>
                           else \<lparr>tuple_txn_id = INVALID_TXN_ID, begin_cid = 1, end_cid = MAX_CID\<rparr>),
      next_free_slot = 4\<rparr>"

definition example_tile_group :: "nat TileGroup" where
  "example_tile_group =
     \<lparr>group_header = example_header, column_map = (\<lambda>c. (0, c)), tiles = unat\<rparr>"

definition example_table :: "nat DataTable" where
  "example_table =
     \<lparr>tile_group_count = 1, tile_groups = (\<lambda>k. example_tile_group), schema_column_count = 1\<rparr>"

definition example_scan :: "nat SeqScanExecutor" where
  "example_scan =
     \<lparr>children = [], predicate = None, column_ids = [], target_table = None,
      current_tile_group_offset = 0, table_tile_group_count = 0,
      plan_table = Some example_table, ctx_txn_id = 99, ctx_last_commit_id = 10,
      output_tile = None\<rparr>"

text \<open>Two predicates that differ only on the invisible slot 2, where one of them fails.\<close>

definition example_failing_predicate :: "nat expression" where
  "example_failing_predicate t =
     (case t of
        TileGroupTuple tg s \<Rightarrow> if s = 2 then Inl ExpressionError else Inr TriTrue
      | LogicalTileTuple lt s \<Rightarrow> Inr TriTrue)"

definition example_true_predicate :: "nat expression" where
  "example_true_predicate t = Inr TriTrue"

text \<open>
  A scan over a child that yields one logical tile of three positions; the predicate is
  null on position 0, false on position 1 and true on position 2.
\<close>

definition example_child_tile :: "nat LogicalTile" where
  "example_child_tile =
     \<lparr>position_lists = [[0, 1, 2]], visible_rows = [True, True, True], columns = []\<rparr>"

definition example_null_predicate :: "nat expression" where
  "example_null_predicate t =
     (case t of
        TileGroupTuple tg s \<Rightarrow> Inr TriTrue
      | LogicalTileTuple lt s \<Rightarrow>
          Inr (if s = 0 then TriNull else if s = 1 then TriFalse else TriTrue))"

definition example_child_scan :: "nat SeqScanExecutor" where
  "example_child_scan =
     \<lparr>children = [[example_child_tile]], predicate = Some example_null_predicate,
      column_ids = [], target_table = None,
      current_tile_group_offset = 0, table_tile_group_count = 0,
      plan_table = None, ctx_txn_id = 99, ctx_last_commit_id = 10,
      output_tile = None\<rparr>"

section \<open>Tuple log records\<close>

text \<open>
  Modelled from the spec: \<open>LogRecord\<close>, \<open>LogRecordType\<close> and \<open>ItemPointer\<close> are declared
  outside the sources. A tuple record is an insert, a delete or an update record; an
  item pointer is a pair of a block id and an offset. The value of \<open>INVALID_OID\<close> is not
  part of the sources either: the constructors take it as their first argument.
\<close>

datatype LogRecordType =
    LOGRECORD_TYPE_TUPLE_INSERT
  | LOGRECORD_TYPE_TUPLE_DELETE
  | LOGRECORD_TYPE_TUPLE_UPDATE

record ItemPointer =
  block :: oid_t
  offset :: oid_t

record TupleRecord =
  log_record_type :: LogRecordType
  txn_id :: txn_id_t
  table_oid :: oid_t
  insert_location :: ItemPointer
  delete_location :: ItemPointer
  record_data :: "nat option"
  db_oid :: oid_t

text \<open>\<open>memset(&location, 0, sizeof(ItemPointer))\<close>: the all-zero item pointer.\<close>

definition zero_ItemPointer :: ItemPointer where
  "zero_ItemPointer = \<lparr>block = 0, offset = 0\<rparr>"

text \<open>The constructor that takes only the record type.\<close>

definition TupleRecord_of_type :: "oid_t \<Rightarrow> LogRecordType \<Rightarrow> TupleRecord" where
  "TupleRecord_of_type INVALID_OID record_type =
     \<lparr>log_record_type = record_type,
      txn_id = INVALID_TXN_ID,
      table_oid = INVALID_OID,
      insert_location = zero_ItemPointer,
      delete_location = zero_ItemPointer,
      record_data = None,
      db_oid = INVALID_OID\<rparr>"

text \<open>
  The constructor that takes all fields. \<open>current_database_oid\<close> is what
  \<open>Bridge::GetCurrentDatabaseOid\<close> returns (the global \<open>MyDatabaseId\<close>); \<open>data_arg\<close> is
  the address of the payload, if any.
\<close>

definition TupleRecord_new ::
  "oid_t \<Rightarrow> oid_t \<Rightarrow> LogRecordType \<Rightarrow> txn_id_t \<Rightarrow> oid_t \<Rightarrow> ItemPointer \<Rightarrow> ItemPointer \<Rightarrow>
   nat option \<Rightarrow> oid_t \<Rightarrow> error + TupleRecord" where
  "TupleRecord_new INVALID_OID current_database_oid record_type txn_id_arg table_oid_arg
     insert_location_arg delete_location_arg data_arg db_oid_arg =
     (if txn_id_arg = 0 then Inl AssertionFailure
      else if table_oid_arg = 0 then Inl AssertionFailure
      else
        (let db = (if db_oid_arg = INVALID_OID then current_database_oid else db_oid_arg)
         in if db = 0 then Inl AssertionFailure
            else Inr \<lparr>log_record_type = record_type,
                      txn_id = txn_id_arg,
                      table_oid = table_oid_arg,
                      insert_location = insert_location_arg,
                      delete_location = delete_location_arg,
                      record_data = data_arg,
                      db_oid = db\<rparr>))"

text \<open>
  The location invariant of the specification: an item pointer is valid when it is not
  all-zero; an insert record has a valid insert location and a zero delete location, a
  delete record the reverse, an update record two valid locations.
\<close>

definition valid_location :: "ItemPointer \<Rightarrow> bool" where
  "valid_location p = (p \<noteq> zero_ItemPointer)"

fun locations_fit :: "LogRecordType \<Rightarrow> ItemPointer \<Rightarrow> ItemPointer \<Rightarrow> bool" where
  "locations_fit LOGRECORD_TYPE_TUPLE_INSERT ins del =
     (valid_location ins \<and> del = zero_ItemPointer)"
| "locations_fit LOGRECORD_TYPE_TUPLE_DELETE ins del =
     (valid_location del \<and> ins = zero_ItemPointer)"
| "locations_fit LOGRECORD_TYPE_TUPLE_UPDATE ins del =
     (valid_location ins \<and> valid_location del)"

definition location_invariant :: "TupleRecord \<Rightarrow> bool" where
  "location_invariant r =
     locations_fit (log_record_type r) (insert_location r) (delete_location r)"

section \<open>Serialization streams\<close>

text \<open>
  Modelled from the spec: \<open>SerializeOutput\<close> and \<open>SerializeInput\<close> are not part of the
  sources. An output is the bytes written so far and its position is their number; an
  input is the bytes still to be read. All multi-byte integers are big-endian. Reading
  beyond the end of the input or a negative string length is a wire format violation.
\<close>

type_synonym SerializeOutput = "byte list"
type_synonym SerializeInput = "byte list"

definition be32 :: "32 word \<Rightarrow> byte list" where
  "be32 v = [ucast (drop_bit 24 v), ucast (drop_bit 16 v), ucast (drop_bit 8 v), ucast v]"

definition be16 :: "16 word \<Rightarrow> byte list" where
  "be16 v = [ucast (drop_bit 8 v), ucast v]"

fun be32_decode :: "byte \<Rightarrow> byte \<Rightarrow> byte \<Rightarrow> byte \<Rightarrow> 32 word" where
  "be32_decode b0 b1 b2 b3 =
     push_bit 24 (ucast b0) OR push_bit 16 (ucast b1) OR push_bit 8 (ucast b2) OR ucast b3"

fun be16_decode :: "byte \<Rightarrow> byte \<Rightarrow> 16 word" where
  "be16_decode b0 b1 = push_bit 8 (ucast b0) OR ucast b1"

definition Position :: "SerializeOutput \<Rightarrow> nat" where
  "Position out = length out"

definition WriteInt :: "SerializeOutput \<Rightarrow> 32 word \<Rightarrow> SerializeOutput" where
  "WriteInt out v = out @ be32 v"

definition WriteShort :: "SerializeOutput \<Rightarrow> 16 word \<Rightarrow> SerializeOutput" where
  "WriteShort out v = out @ be16 v"

definition WriteByte :: "SerializeOutput \<Rightarrow> byte \<Rightarrow> SerializeOutput" where
  "WriteByte out v = out @ [v]"

definition WriteBytes :: "SerializeOutput \<Rightarrow> byte list \<Rightarrow> nat \<Rightarrow> SerializeOutput" where
  "WriteBytes out bytes n = out @ take n bytes"

definition WriteIntAt :: "SerializeOutput \<Rightarrow> nat \<Rightarrow> 32 word \<Rightarrow> SerializeOutput" where
  "WriteIntAt out pos v = take pos out @ be32 v @ drop (pos + 4) out"

fun ReadInt :: "SerializeInput \<Rightarrow> error + (32 word \<times> SerializeInput)" where
  "ReadInt (b0 # b1 # b2 # b3 # rest) = Inr (be32_decode b0 b1 b2 b3, rest)"
| "ReadInt inp = Inl SerializationException"

fun ReadShort :: "SerializeInput \<Rightarrow> error + (16 word \<times> SerializeInput)" where
  "ReadShort (b0 # b1 # rest) = Inr (be16_decode b0 b1, rest)"
| "ReadShort inp = Inl SerializationException"

fun ReadByte :: "SerializeInput \<Rightarrow> error + (byte \<times> SerializeInput)" where
  "ReadByte (b0 # rest) = Inr (b0, rest)"
| "ReadByte inp = Inl SerializationException"

definition ReadEnumInSingleByte :: "SerializeInput \<Rightarrow> error + (byte \<times> SerializeInput)" where
  "ReadEnumInSingleByte inp = ReadByte inp"

definition ReadTextString :: "SerializeInput \<Rightarrow> error + (byte list \<times> SerializeInput)" where
  "ReadTextString inp =
     (case ReadInt inp of
        Inl e \<Rightarrow> Inl e
      | Inr (string_length, rest) \<Rightarrow>
          if sint string_length < 0 then Inl SerializationException
          else if length rest < nat (sint string_length) then Inl SerializationException
          else Inr (take (nat (sint string_length)) rest, drop (nat (sint string_length)) rest))"

section \<open>Schema, backend and pool\<close>

text \<open>
  Modelled from the spec: \<open>catalog::Schema\<close>, \<open>Backend\<close> and \<open>Pool\<close> are not part of the
  sources. A schema is an ordered sequence of column descriptors together with the
  length of a tuple; it is inlined when every column is; two schemas are equal when
  their column sequences are. A value type is the integer of its enumerator. A column
  name is a \<open>std::string\<close>, a sequence of bytes.
\<close>

type_synonym ValueType = "32 word"
type_synonym cstring = "byte list"

record Column =
  column_name :: cstring
  column_type :: ValueType
  byte_length :: nat
  is_inlined :: bool
  allow_null :: bool
  column_offset :: nat

record Schema =
  schema_columns :: "Column list"
  schema_length :: nat

definition GetColumnCount :: "Schema \<Rightarrow> oid_t" where
  "GetColumnCount s = of_nat (length (schema_columns s))"

definition GetLength :: "Schema \<Rightarrow> nat" where
  "GetLength s = schema_length s"

definition IsInlined :: "Schema \<Rightarrow> bool" where
  "IsInlined s = list_all is_inlined (schema_columns s)"

definition Schema_not_equal :: "Schema \<Rightarrow> Schema \<Rightarrow> bool" where
  "Schema_not_equal a b = (schema_columns a \<noteq> schema_columns b)"

text \<open>
  A backend answers an allocation request with a buffer or with null, and remembers the
  sizes of the buffers it handed out. A pool is bound to a backend, which is referred to
  by its address.
\<close>

record Backend =
  can_allocate :: "nat \<Rightarrow> bool"
  allocated :: "nat list"

definition Allocate :: "Backend \<Rightarrow> nat \<Rightarrow> bool \<times> Backend" where
  "Allocate b size_arg =
     (if can_allocate b size_arg then (True, b\<lparr>allocated := allocated b @ [size_arg]\<rparr>)
      else (False, b))"

record Pool =
  pool_backend :: nat

section \<open>Tiles\<close>

text \<open>
  The fields of a tile as its constructor initialises them. \<open>data\<close> is the tuple storage,
  \<open>column_header\<close> the cached serialized header (\<open>None\<close> for the null pointer) and
  \<open>column_header_size\<close> its size, an id like \<open>INVALID_ID\<close>, with which it is initialised
  and compared. Sizes of buffers (\<open>size_t\<close>) are natural numbers.
\<close>

record Tile =
  backend :: nat
  data :: "byte list"
  pool :: "Pool option"
  column_names :: "cstring list"
  schema :: Schema
  own_schema :: bool
  num_tuple_slots :: oid_t
  column_count :: oid_t
  tuple_length :: nat
  uninlined_data_size :: nat
  tile_id :: oid_t
  tile_group_id :: oid_t
  table_id :: oid_t
  database_id :: oid_t
  column_header :: "byte list option"
  column_header_size :: oid_t
  tile_group_header :: "TileGroupHeader option"

text \<open>
  The constructor. \<open>INVALID_ID\<close> is the reserved sentinel, whose value is not part of the
  sources; \<open>backend_arg\<close> is the address of the backend and \<open>bs\<close> its state;
  \<open>tuple_count\<close> is a signed 32-bit integer. The result is the tile or the failed
  assertion, together with the backend's new state.
\<close>

definition Tile_new ::
  "oid_t \<Rightarrow> TileGroupHeader option \<Rightarrow> nat \<Rightarrow> Backend \<Rightarrow> Schema \<Rightarrow> 32 word \<Rightarrow> cstring list \<Rightarrow>
   bool \<Rightarrow> (error + Tile) \<times> Backend" where
  "Tile_new INVALID_ID tile_header_arg backend_arg bs tuple_schema tuple_count columns_names_arg
     own_schema_arg =
     (if \<not> 0 < sint tuple_count then (Inl AssertionFailure, bs)
      else
        (let tile_size = nat (sint tuple_count) * GetLength tuple_schema;
             (allocation, bs') = Allocate bs tile_size
         in if \<not> allocation then (Inl AssertionFailure, bs')
            else
              (Inr \<lparr>backend = backend_arg,
                    data = replicate tile_size 0,
                    pool = (if IsInlined tuple_schema = False
                            then Some \<lparr>pool_backend = backend_arg\<rparr> else None),
                    column_names = columns_names_arg,
                    schema = tuple_schema,
                    own_schema = own_schema_arg,
                    num_tuple_slots = tuple_count,
                    column_count = GetColumnCount tuple_schema,
                    tuple_length = GetLength tuple_schema,
                    uninlined_data_size = 0,
                    tile_id = INVALID_ID,
                    tile_group_id = INVALID_ID,
                    table_id = INVALID_ID,
                    database_id = INVALID_ID,
                    column_header = None,
                    column_header_size = INVALID_ID,
                    tile_group_header = tile_header_arg\<rparr>, bs')))"

text \<open>
  Slot \<open>k\<close> lives at offset \<open>k * tuple_length\<close> of \<open>data\<close>. \<open>tuple_at\<close> is the window of a
  tuple on a slot, \<open>InsertTuple\<close> copies \<open>tuple_length\<close> bytes of a tuple into a slot, and
  \<open>write_tuple\<close> is what writing through a window moved to that slot does.
\<close>

definition GetTupleLocation :: "Tile \<Rightarrow> oid_t \<Rightarrow> nat" where
  "GetTupleLocation tile tuple_slot_id = unat tuple_slot_id * tuple_length tile"

definition tuple_at :: "Tile \<Rightarrow> oid_t \<Rightarrow> byte list" where
  "tuple_at tile tuple_slot_id =
     take (tuple_length tile) (drop (GetTupleLocation tile tuple_slot_id) (data tile))"

definition write_tuple :: "Tile \<Rightarrow> oid_t \<Rightarrow> byte list \<Rightarrow> Tile" where
  "write_tuple tile tuple_slot_id bytes =
     (let location = GetTupleLocation tile tuple_slot_id;
          copied = take (tuple_length tile) bytes
      in tile\<lparr>data := take location (data tile) @ copied @
                          drop (location + length copied) (data tile)\<rparr>)"

definition InsertTuple :: "Tile \<Rightarrow> oid_t \<Rightarrow> byte list \<Rightarrow> Tile" where
  "InsertTuple tile tuple_slot_id tuple_data = write_tuple tile tuple_slot_id tuple_data"

text \<open>
  Modelled from the spec: \<open>TileIterator\<close> is not part of the sources. It yields the
  windows on the slots \<open>0 .. tuple_count - 1\<close> in order.
\<close>

definition tile_tuples :: "Tile \<Rightarrow> byte list list" where
  "tile_tuples tile = map (tuple_at tile) (oid_range 0 (num_tuple_slots tile))"

subsection \<open>Serialization\<close>

text \<open>The loops of \<open>SerializeHeaderTo\<close> over the column types and the column names.\<close>

fun write_column_types :: "Schema \<Rightarrow> oid_t list \<Rightarrow> SerializeOutput \<Rightarrow> error + SerializeOutput" where
  "write_column_types s [] out = Inr out"
| "write_column_types s (column_itr # rest) out =
     (if unat column_itr < length (schema_columns s)
      then write_column_types s rest
             (WriteByte out (ucast (column_type (schema_columns s ! unat column_itr))))
      else Inl OutOfRange)"

fun write_column_names ::
  "cstring list \<Rightarrow> oid_t list \<Rightarrow> SerializeOutput \<Rightarrow> error + SerializeOutput" where
  "write_column_names names [] out = Inr out"
| "write_column_names names (column_itr # rest) out =
     (if unat column_itr < length names then
        (let name = names ! unat column_itr;
             name_length = (of_nat (length name) :: 32 word)
         in if sint name_length < 0 then Inl AssertionFailure
            else write_column_names names rest
                   (WriteBytes (WriteInt out name_length) name (nat (sint name_length))))
      else Inl OutOfRange)"

text \<open>
  \<open>SerializeHeaderTo\<close> returns its boolean result or the error, the tile (whose header
  cache it may fill) and the output. The status byte is \<open>-128\<close> and the placeholder of
  the header size is \<open>-1\<close>.
\<close>

definition SerializeHeaderTo ::
  "oid_t \<Rightarrow> Tile \<Rightarrow> SerializeOutput \<Rightarrow> (error + bool) \<times> Tile \<times> SerializeOutput" where
  "SerializeHeaderTo INVALID_ID tile out =
     (case column_header tile of
        Some cached \<Rightarrow>
          if column_header_size tile = INVALID_ID then (Inl AssertionFailure, tile, out)
          else (Inr True, tile, WriteBytes out cached (unat (column_header_size tile)))
      | None \<Rightarrow>
          if column_header_size tile \<noteq> INVALID_ID then (Inl AssertionFailure, tile, out)
          else
            (let start = Position out;
                 out1 = WriteInt out 0xFFFFFFFF;
                 out2 = WriteByte out1 0x80;
                 out3 = WriteShort out2 (ucast (column_count tile))
             in case write_column_types (schema tile) (oid_range 0 (column_count tile)) out3 of
                  Inl e \<Rightarrow> (Inl e, tile, out3)
                | Inr out4 \<Rightarrow>
                    (case write_column_names (column_names tile)
                            (oid_range 0 (column_count tile)) out4 of
                       Inl e \<Rightarrow> (Inl e, tile, out4)
                     | Inr out5 \<Rightarrow>
                         (let header_size = (of_nat (Position out5 - start) :: oid_t);
                              non_inclusive_header_size = header_size - 4;
                              out6 = WriteIntAt out5 start non_inclusive_header_size
                          in (Inr True,
                              tile\<lparr>column_header_size := header_size,
                                   column_header :=
                                     Some (take (unat header_size) (drop start out6))\<rparr>,
                              out6)))))"

text \<open>
  Modelled from the spec: \<open>Tuple::SerializeTo\<close> and \<open>Tuple::DeserializeFrom\<close> are not
  part of the sources. They are parameters: \<open>ser\<close> gives the bytes a tuple appends to the
  output, \<open>des\<close> reads one tuple from the input and gives the bytes it stores in the slot
  its window is on and the rest of the input. The loop of
  \<open>SerializeTo\<close> asks the iterator first and then compares the count.
\<close>

type_synonym tuple_serializer = "Schema \<Rightarrow> byte list \<Rightarrow> byte list"
type_synonym tuple_deserializer =
  "Schema \<Rightarrow> SerializeInput \<Rightarrow> error + (byte list \<times> SerializeInput)"

fun serialize_tuples ::
  "tuple_serializer \<Rightarrow> Schema \<Rightarrow> byte list list \<Rightarrow> oid_t \<Rightarrow> oid_t \<Rightarrow> SerializeOutput \<Rightarrow>
   oid_t \<times> SerializeOutput" where
  "serialize_tuples ser s [] written_count num_tuples out = (written_count, out)"
| "serialize_tuples ser s (tuple # rest) written_count num_tuples out =
     (if written_count < num_tuples
      then serialize_tuples ser s rest (written_count + 1) num_tuples (out @ ser s tuple)
      else (written_count, out))"

definition SerializeTo ::
  "oid_t \<Rightarrow> tuple_serializer \<Rightarrow> Tile \<Rightarrow> SerializeOutput \<Rightarrow> oid_t \<Rightarrow>
   (error + bool) \<times> Tile \<times> SerializeOutput" where
  "SerializeTo INVALID_ID ser tile out num_tuples =
     (let pos = Position out;
          out1 = WriteInt out 0xFFFFFFFF
      in case SerializeHeaderTo INVALID_ID tile out1 of
           (Inl e, tile1, out2) \<Rightarrow> (Inl e, tile1, out2)
         | (Inr header_written, tile1, out2) \<Rightarrow>
             if \<not> header_written then (Inr False, tile1, out2)
             else
               (let out3 = WriteInt out2 num_tuples;
                    (written_count, out4) =
                      serialize_tuples ser (schema tile1) (tile_tuples tile1) 0 num_tuples out3
                in if written_count \<noteq> num_tuples then (Inl AssertionFailure, tile1, out4)
                   else
                     (let sz = (of_nat (Position out4 - pos - 4) :: 32 word)
                      in if \<not> 0 < sint sz then (Inl AssertionFailure, tile1, out4)
                         else (Inr True, tile1, WriteIntAt out4 pos sz))))"

subsection \<open>Deserialization\<close>

fun read_column_types :: "nat \<Rightarrow> SerializeInput \<Rightarrow> error + (byte list \<times> SerializeInput)" where
  "read_column_types 0 inp = Inr ([], inp)"
| "read_column_types (Suc n) inp =
     (case ReadEnumInSingleByte inp of
        Inl e \<Rightarrow> Inl e
      | Inr (ty, rest) \<Rightarrow>
          (case read_column_types n rest of
             Inl e \<Rightarrow> Inl e
           | Inr (tys, rest') \<Rightarrow> Inr (ty # tys, rest')))"

fun read_column_names :: "nat \<Rightarrow> SerializeInput \<Rightarrow> error + (cstring list \<times> SerializeInput)" where
  "read_column_names 0 inp = Inr ([], inp)"
| "read_column_names (Suc n) inp =
     (case ReadTextString inp of
        Inl e \<Rightarrow> Inl e
      | Inr (name, rest) \<Rightarrow>
          (case read_column_names n rest of
             Inl e \<Rightarrow> Inl e
           | Inr (names, rest') \<Rightarrow> Inr (name # names, rest')))"

text \<open>
  The loop of \<open>DeserializeTuplesFromWithoutHeader\<close>: the temporary tuple is moved to
  each slot in turn and filled from the input.
\<close>

fun deserialize_tuples ::
  "tuple_deserializer \<Rightarrow> Tile \<Rightarrow> oid_t list \<Rightarrow> SerializeInput \<Rightarrow>
   (error + unit) \<times> Tile \<times> SerializeInput" where
  "deserialize_tuples des tile [] inp = (Inr (), tile, inp)"
| "deserialize_tuples des tile (tuple_itr # rest) inp =
     (case des (schema tile) inp of
        Inl e \<Rightarrow> (Inl e, tile, inp)
      | Inr (bytes, inp') \<Rightarrow>
          deserialize_tuples des (write_tuple tile tuple_itr bytes) rest inp')"

definition DeserializeTuplesFromWithoutHeader ::
  "tuple_deserializer \<Rightarrow> Tile \<Rightarrow> SerializeInput \<Rightarrow> (error + unit) \<times> Tile \<times> SerializeInput" where
  "DeserializeTuplesFromWithoutHeader des tile inp =
     (case ReadInt inp of
        Inl e \<Rightarrow> (Inl e, tile, inp)
      | Inr (tuple_count, rest) \<Rightarrow>
          if \<not> 0 < tuple_count then (Inl AssertionFailure, tile, rest)
          else if \<not> tuple_count \<le> num_tuple_slots tile then (Inl AssertionFailure, tile, rest)
          else deserialize_tuples des tile (oid_range 0 tuple_count) rest)"

text \<open>
  \<open>DeserializeTuplesFrom\<close> reads the row start, the status byte and the column count (a
  signed 16-bit integer converted to an id), then the types and the names, compares the
  column count with the schema's and goes on with the tuples. After the assertion on the
  column count it declares the array \<open>types[column_count]\<close> on the stack. A negative
  short is sign-extended to an id of at least \<open>2^32 - 2^15\<close>, which passes the assertion
  and makes the array larger than any stack; an array for a non-negative short has at
  most \<open>2^15 - 1\<close> entries and is taken to fit.
\<close>

definition DeserializeTuplesFrom ::
  "tuple_deserializer \<Rightarrow> Tile \<Rightarrow> SerializeInput \<Rightarrow> (error + unit) \<times> Tile \<times> SerializeInput" where
  "DeserializeTuplesFrom des tile inp =
     (case ReadInt inp of
        Inl e \<Rightarrow> (Inl e, tile, inp)
      | Inr (rowstart, in1) \<Rightarrow>
     (case ReadByte in1 of
        Inl e \<Rightarrow> (Inl e, tile, in1)
      | Inr (status, in2) \<Rightarrow>
     (case ReadShort in2 of
        Inl e \<Rightarrow> (Inl e, tile, in2)
      | Inr (short_count, in3) \<Rightarrow>
          (let incoming_count = (scast short_count :: oid_t)
           in if \<not> 0 < incoming_count then (Inl AssertionFailure, tile, in3)
              else if sint short_count < 0 then (Inl StackOverflow, tile, in3)
              else
     (case read_column_types (unat incoming_count) in3 of
        Inl e \<Rightarrow> (Inl e, tile, in3)
      | Inr (types, in4) \<Rightarrow>
     (case read_column_names (unat incoming_count) in4 of
        Inl e \<Rightarrow> (Inl e, tile, in4)
      | Inr (names, in5) \<Rightarrow>
          if incoming_count \<noteq> GetColumnCount (schema tile)
          then (Inl SerializationException, tile, in5)
          else DeserializeTuplesFromWithoutHeader des tile in5))))))"

subsection \<open>Equality\<close>

text \<open>
  Modelled from the spec: \<open>Tuple::operator==\<close> is not part of the sources; it is the
  parameter \<open>tuple_equal\<close>. The loop of \<open>Tile::operator==\<close> advances the iterator of this
  tile and, for each tuple it yields, the iterator of the other tile.
\<close>

fun tuples_equal ::
  "(byte list \<Rightarrow> byte list \<Rightarrow> bool) \<Rightarrow> byte list list \<Rightarrow> byte list list \<Rightarrow> bool" where
  "tuples_equal tuple_equal [] others = True"
| "tuples_equal tuple_equal (tuple # rest) [] = False"
| "tuples_equal tuple_equal (tuple # rest) (other_tuple # other_rest) =
     (if \<not> tuple_equal tuple other_tuple then False
      else tuples_equal tuple_equal rest other_rest)"

definition Tile_equal :: "(byte list \<Rightarrow> byte list \<Rightarrow> bool) \<Rightarrow> Tile \<Rightarrow> Tile \<Rightarrow> bool" where
  "Tile_equal tuple_equal tile other =
     (if \<not> (column_count tile = column_count other) then False
      else if \<not> (database_id tile = database_id other) then False
      else if Schema_not_equal (schema tile) (schema other) then False
      else tuples_equal tuple_equal (tile_tuples tile) (tile_tuples other))"

subsection \<open>The wire header of a tile\<close>

text \<open>
  The column header as the wire format defines it: the header size (not counting
  itself), the status byte, the column count as a 16-bit integer, one byte per column
  type and one length-prefixed string per column name.
\<close>

definition column_type_bytes :: "Tile \<Rightarrow> byte list" where
  "column_type_bytes tile =
     map (\<lambda>c. ucast (column_type c))
       (take (unat (column_count tile)) (schema_columns (schema tile)))"

definition column_name_bytes :: "Tile \<Rightarrow> byte list" where
  "column_name_bytes tile =
     concat (map (\<lambda>name. be32 (of_nat (length name)) @ name)
       (take (unat (column_count tile)) (column_names tile)))"

definition header_body :: "Tile \<Rightarrow> byte list" where
  "header_body tile =
     [0x80] @ be16 (ucast (column_count tile)) @ column_type_bytes tile @
     column_name_bytes tile"

definition header_bytes :: "Tile \<Rightarrow> byte list" where
  "header_bytes tile = be32 (of_nat (length (header_body tile))) @ header_body tile"

text \<open>
  The header of a tile is representable when the tile has a type and a name for each of
  its columns, every name is shorter than \<open>2^31\<close> bytes, and the size of the header fits
  the tile's 32-bit \<open>column_header_size\<close> field without being the sentinel that marks an
  empty cache.
\<close>

definition header_representable :: "oid_t \<Rightarrow> Tile \<Rightarrow> bool" where
  "header_representable INVALID_ID tile =
     (unat (column_count tile) \<le> length (schema_columns (schema tile)) \<and>
      unat (column_count tile) \<le> length (column_names tile) \<and>
      (\<forall>name \<in> set (take (unat (column_count tile)) (column_names tile)).
          length name < 2 ^ 31) \<and>
      length (header_bytes tile) < 2 ^ 32 \<and>
      (of_nat (length (header_bytes tile)) :: oid_t) \<noteq> INVALID_ID)"

text \<open>The tile with its header cache filled.\<close>

definition cache_header :: "Tile \<Rightarrow> Tile" where
  "cache_header tile =
     tile\<lparr>column_header_size := of_nat (length (header_bytes tile)),
          column_header := Some (header_bytes tile)\<rparr>"

text \<open>
  The bytes of the first \<open>n\<close> tuples of a tile, and everything \<open>SerializeTo\<close> writes after
  the total size: the header, the tuple count and the tuples.
\<close>

definition tuple_bytes :: "tuple_serializer \<Rightarrow> Tile \<Rightarrow> oid_t \<Rightarrow> byte list" where
  "tuple_bytes ser tile n =
     concat (map (ser (schema tile)) (take (unat n) (tile_tuples tile)))"

definition wire_payload :: "tuple_serializer \<Rightarrow> Tile \<Rightarrow> oid_t \<Rightarrow> byte list" where
  "wire_payload ser tile n = header_bytes tile @ be32 n @ tuple_bytes ser tile n"

text \<open>
  A wire header as \<open>DeserializeTuplesFrom\<close> expects it: row start, status byte, column
  count, one byte per type, one length-prefixed string per name.
\<close>

definition encode_names :: "cstring list \<Rightarrow> byte list" where
  "encode_names names = concat (map (\<lambda>name. be32 (of_nat (length name)) @ name) names)"

definition encode_header ::
  "32 word \<Rightarrow> byte \<Rightarrow> 16 word \<Rightarrow> byte list \<Rightarrow> cstring list \<Rightarrow> byte list" where
  "encode_header rowstart status short_count types names =
     be32 rowstart @ [status] @ be16 short_count @ types @ encode_names names"

text \<open>The payloads of \<open>k\<close> tuples read one after the other from an input.\<close>

fun read_tuples ::
  "tuple_deserializer \<Rightarrow> Schema \<Rightarrow> nat \<Rightarrow> SerializeInput \<Rightarrow>
   error + (byte list list \<times> SerializeInput)" where
  "read_tuples des s 0 inp = Inr ([], inp)"
| "read_tuples des s (Suc k) inp =
     (case des s inp of
        Inl e \<Rightarrow> Inl e
      | Inr (bytes, inp') \<Rightarrow>
          (case read_tuples des s k inp' of
             Inl e \<Rightarrow> Inl e
           | Inr (payloads, rest) \<Rightarrow> Inr (bytes # payloads, rest)))"

text \<open>
  A tile is well formed when its data are \<open>tuple_count * tuple_length\<close> bytes long, as the
  constructor makes them. A tuple deserializer fills a slot when the bytes it produces
  have the length of a tuple of the tile.
\<close>

definition tile_wf :: "Tile \<Rightarrow> bool" where
  "tile_wf tile = (length (data tile) = unat (num_tuple_slots tile) * tuple_length tile)"

definition fills_slot :: "tuple_deserializer \<Rightarrow> Tile \<Rightarrow> bool" where
  "fills_slot des tile =
     (\<forall>inp bytes rest. des (schema tile) inp = Inr (bytes, rest) \<longrightarrow>
        length bytes = tuple_length tile)"

text \<open>
  The header cache of a tile is in order when it is empty and marked so, or holds the
  wire header of the tile with its size. A tuple codec round-trips on tuples of \<open>w\<close> bytes
  when the deserializer, given what the serializer wrote for a tuple followed by any
  input, yields an equal tuple and that very rest of the input.
\<close>

definition header_cache_ok :: "oid_t \<Rightarrow> Tile \<Rightarrow> bool" where
  "header_cache_ok INVALID_ID tile =
     ((column_header tile = None \<and> column_header_size tile = INVALID_ID) \<or>
      (column_header tile = Some (header_bytes tile) \<and>
       column_header_size tile = of_nat (length (header_bytes tile))))"

definition codec_round_trip ::
  "tuple_serializer \<Rightarrow> tuple_deserializer \<Rightarrow> Schema \<Rightarrow> nat \<Rightarrow>
   (byte list \<Rightarrow> byte list \<Rightarrow> bool) \<Rightarrow> bool" where
  "codec_round_trip ser des s w tuple_equal =
     (\<forall>bytes rest. length bytes = w \<longrightarrow>
        (\<exists>bytes'. des s (ser s bytes @ rest) = Inr (bytes', rest) \<and> tuple_equal bytes bytes'))"

subsection \<open>Example tiles\<close>

text \<open>
  A schema of one inlined four-byte column named \<open>a\<close>, a backend that serves requests up
  to 1024 bytes, a backend that serves none, and the tile that the constructor builds for
  this schema with a given number of slots when \<open>INVALID_ID\<close> is the largest id.
\<close>

definition example_schema :: Schema where
  "example_schema =
     \<lparr>schema_columns = [\<lparr>column_name = [97], column_type = 5, byte_length = 4,
                          is_inlined = True, allow_null = False, column_offset = 0\<rparr>],
      schema_length = 4\<rparr>"

definition example_backend :: Backend where
  "example_backend = \<lparr>can_allocate = (\<lambda>n. n \<le> 1024), allocated = []\<rparr>"

definition exhausted_backend :: Backend where
  "exhausted_backend = \<lparr>can_allocate = (\<lambda>n. False), allocated = []\<rparr>"

definition example_tile :: "oid_t \<Rightarrow> Tile" where
  "example_tile slots =
     \<lparr>backend = 0, data = replicate (unat slots * 4) 0, pool = None, column_names = [[97]],
      schema = example_schema, own_schema = False, num_tuple_slots = slots,
      column_count = 1, tuple_length = 4, uninlined_data_size = 0,
      tile_id = 0xFFFFFFFF, tile_group_id = 0xFFFFFFFF, table_id = 0xFFFFFFFF,
      database_id = 0xFFFFFFFF, column_header = None, column_header_size = 0xFFFFFFFF,
      tile_group_header = None\<rparr>"

text \<open>
  An example tuple codec for inlined schemas: a tuple travels as the bytes of its slot.
  \<open>example_loaded_tile\<close> is the two-slot example tile holding the tuples 10 and 20.
\<close>

definition raw_serializer :: tuple_serializer where
  "raw_serializer s bytes = bytes"

definition raw_deserializer :: tuple_deserializer where
  "raw_deserializer s inp =
     (if length inp < schema_length s then Inl SerializationException
      else Inr (take (schema_length s) inp, drop (schema_length s) inp))"

definition example_loaded_tile :: Tile where
  "example_loaded_tile = (example_tile 2)\<lparr>data := [0, 0, 0, 10, 0, 0, 0, 20]\<rparr>"

section \<open>Properties of the sequential scan\<close>

subsection \<open>The position list of a tile group\<close>

lemma oid_range_Cons: "i < n \<Longrightarrow> oid_range i n = i # oid_range (i + 1) n"
  for i n :: oid_t
proof -
  assume a: "i < n"
  then have 1: "unat i < unat n" by (simp add: word_less_nat_alt)
  have 2: "unat (i + 1) = Suc (unat i)" using a by unat_arith
  show ?thesis unfolding oid_range_def using 1 2 by (simp add: upt_conv_Cons)
qed

lemma oid_range_Nil: "\<not> i < n \<Longrightarrow> oid_range i n = []"
  for i n :: oid_t
  by (simp add: oid_range_def word_less_nat_alt)

lemma build_position_list_eq:
  "(\<And>s. s \<in> set (oid_range i n) \<Longrightarrow> IsVisible (GetHeader tg) s txn cid \<Longrightarrow>
        \<exists>v. eval_predicate pred tg s = Inr v) \<Longrightarrow>
   build_position_list pred tg txn cid n i acc =
     Inr (acc @ filter (retained pred tg txn cid) (oid_range i n))"
proof (induction pred tg txn cid n i acc rule: build_position_list.induct)
  case (1 pred tg txn cid n i acc)
  show ?case
  proof (cases "i < n")
    case False
    then show ?thesis by (simp add: oid_range_Nil build_position_list.simps [of _ _ _ _ n i])
  next
    case True
    note sr = oid_range_Cons [OF True]
    have rest: "\<And>s. s \<in> set (oid_range (i + 1) n) \<Longrightarrow> IsVisible (GetHeader tg) s txn cid \<Longrightarrow>
        \<exists>v. eval_predicate pred tg s = Inr v"
      using "1.prems" sr by simp
    show ?thesis
    proof (cases "IsVisible (GetHeader tg) i txn cid")
      case False
      then show ?thesis
        using True "1.IH"(1) [OF True _ rest] sr
        by (simp add: retained_def build_position_list.simps [of _ _ _ _ n i])
    next
      case vis: True
      show ?thesis
      proof (cases pred)
        case None
        then show ?thesis
          using True vis "1.IH"(2) [OF True _ None rest] sr
          by (simp add: retained_def build_position_list.simps [of _ _ _ _ n i])
      next
        case (Some p)
        from "1.prems" [of i] vis sr obtain v where v: "p (TileGroupTuple tg i) = Inr v"
          by (auto simp: eval_predicate_def Some)
        show ?thesis
        proof (cases "IsTrue v")
          case True
          then show ?thesis
            using \<open>i < n\<close> vis Some v "1.IH"(3) [OF \<open>i < n\<close> _ Some v True rest] sr
            by (simp add: retained_def build_position_list.simps [of _ _ _ _ n i])
        next
          case False
          then show ?thesis
            using \<open>i < n\<close> vis Some v "1.IH"(4) [OF \<open>i < n\<close> _ Some v False rest] sr
            by (simp add: retained_def build_position_list.simps [of _ _ _ _ n i])
        qed
      qed
    qed
  qed
qed

lemma unat_of_nat_oid: "k < 2 ^ 32 \<Longrightarrow> unat (of_nat k :: oid_t) = k"
  by (rule of_nat_inverse [OF refl]) simp

lemma unat_oid_bound: "unat (n :: oid_t) < 2 ^ 32"
  using unsigned_less [of n, where 'a = nat] by simp

lemma oid_range_sorted: "sorted_wrt (<) (oid_range i n)"
proof -
  have mono: "\<And>a b. a \<in> set [unat i..<unat n] \<Longrightarrow> b \<in> set [unat i..<unat n] \<Longrightarrow> a < b \<Longrightarrow>
      (of_nat a :: oid_t) < of_nat b"
  proof -
    fix a b assume "a \<in> set [unat i..<unat n]" "b \<in> set [unat i..<unat n]" "a < b"
    then have "a < 2 ^ 32" "b < 2 ^ 32"
      using unat_oid_bound [of n] by auto
    then show "(of_nat a :: oid_t) < of_nat b"
      using \<open>a < b\<close> by (simp add: word_less_nat_alt unat_of_nat_oid)
  qed
  have "sorted_wrt (\<lambda>a b. (of_nat a :: oid_t) < of_nat b) [unat i..<unat n]"
    by (rule sorted_wrt_mono_rel [OF mono sorted_wrt_upt])
  then show ?thesis
    unfolding oid_range_def sorted_wrt_map .
qed

lemma set_oid_range: "set (oid_range i n) = {s. i \<le> s \<and> s < n}"
proof (rule set_eqI)
  fix s :: oid_t
  show "s \<in> set (oid_range i n) \<longleftrightarrow> s \<in> {s. i \<le> s \<and> s < n}"
  proof
    assume "s \<in> set (oid_range i n)"
    then obtain k where k: "s = of_nat k" "unat i \<le> k" "k < unat n"
      by (auto simp: oid_range_def)
    have "k < 2 ^ 32" using k(3) unat_oid_bound [of n] by simp
    then have "unat s = k" using k(1) by (simp add: unat_of_nat_oid)
    then show "s \<in> {s. i \<le> s \<and> s < n}"
      using k by (simp add: word_le_nat_alt word_less_nat_alt)
  next
    assume "s \<in> {s. i \<le> s \<and> s < n}"
    then have "unat i \<le> unat s" "unat s < unat n"
      by (simp_all add: word_le_nat_alt word_less_nat_alt)
    then have "unat s \<in> set [unat i..<unat n]" by simp
    then have "(of_nat (unat s) :: oid_t) \<in> of_nat ` set [unat i..<unat n]" by (rule imageI)
    then show "s \<in> set (oid_range i n)" unfolding oid_range_def set_map by simp
  qed
qed

lemma DExecute_base_table:
  assumes "children ex = []" and "plan_table ex = Some tbl"
  shows "DExecute ex =
     (let ex2 = ex\<lparr>target_table := Some tbl,
                    table_tile_group_count := GetTileGroupCount tbl,
                    column_ids := fill_column_ids ex tbl\<rparr>;
          tg = GetTileGroup tbl (current_tile_group_offset ex)
      in if current_tile_group_offset ex = GetTileGroupCount tbl then Inr (False, ex2)
         else (case build_position_list (predicate ex) tg (ctx_txn_id ex)
                      (ctx_last_commit_id ex) (GetNextTupleSlot tg) 0 [] of
                 Inl e \<Rightarrow> Inl e
               | Inr position_list \<Rightarrow>
                   Inr (True, ex2\<lparr>current_tile_group_offset := current_tile_group_offset ex + 1,
                                  output_tile := Some (add_columns tg (fill_column_ids ex tbl)
                                    (AddPositionList LogicalTileFactory_GetTile position_list))\<rparr>)))"
proof (cases "column_ids ex = []")
  case True
  show ?thesis
    unfolding DExecute_def fill_column_ids_def
    using assms True by (simp add: Let_def split: sum.split)
next
  case False
  show ?thesis
    unfolding DExecute_def fill_column_ids_def
    using assms False by (simp add: Let_def split: sum.split)
qed

lemma add_columns_position_lists [simp]:
  "position_lists (add_columns tg cols lt) = position_lists lt"
  by (induction cols arbitrary: lt) (simp_all add: AddColumn_def split: prod.splits)

lemma add_columns_columns:
  "columns (add_columns tg cols lt) =
     columns lt @ map (\<lambda>c. \<lparr>base_tile = GetTile tg (fst (LocateTileAndColumn tg c)),
                              own_base_tile = False,
                              origin_column_id = snd (LocateTileAndColumn tg c),
                              position_list_idx = 0\<rparr>) cols"
  by (induction cols arbitrary: lt) (simp_all add: AddColumn_def split: prod.splits)

lemma build_position_list_total:
  assumes "predicate_defined pred tg txn cid"
  shows "build_position_list pred tg txn cid (GetNextTupleSlot tg) 0 [] =
           Inr (visible_matching_slots pred tg txn cid)"
proof -
  have "build_position_list pred tg txn cid (GetNextTupleSlot tg) 0 [] =
          Inr ([] @ filter (retained pred tg txn cid) (oid_range 0 (GetNextTupleSlot tg)))"
    by (rule build_position_list_eq)
       (use assms in \<open>auto simp: predicate_defined_def set_oid_range\<close>)
  then show ?thesis by (simp add: visible_matching_slots_def)
qed

lemma visible_matching_slots_sorted:
  "sorted_wrt (<) (visible_matching_slots pred tg txn cid)"
  unfolding visible_matching_slots_def
  by (rule sorted_wrt_filter [OF oid_range_sorted])

lemma set_visible_matching_slots:
  "set (visible_matching_slots pred tg txn cid) =
     {s. s < GetNextTupleSlot tg \<and> retained pred tg txn cid s}"
  by (auto simp: visible_matching_slots_def set_oid_range)

lemma run_executor_base_table:
  assumes "children ex = []" and "plan_table ex = Some tbl"
    and "current_tile_group_offset ex \<le> GetTileGroupCount tbl"
    and "\<forall>k. predicate_defined (predicate ex) (GetTileGroup tbl k) (ctx_txn_id ex)
               (ctx_last_commit_id ex)"
    and "unat (GetTileGroupCount tbl) - unat (current_tile_group_offset ex) < fuel"
  shows "\<exists>outs. run_executor fuel ex = Some (Inr outs) \<and>
           map (map_option position_lists) outs =
             map (\<lambda>k. Some [visible_matching_slots (predicate ex) (GetTileGroup tbl k)
                               (ctx_txn_id ex) (ctx_last_commit_id ex)])
                 (oid_range (current_tile_group_offset ex) (GetTileGroupCount tbl))"
  using assms
proof (induction fuel arbitrary: ex)
  case 0
  then show ?case by simp
next
  case (Suc fuel)
  let ?o = "current_tile_group_offset ex"
  let ?n = "GetTileGroupCount tbl"
  note unf = DExecute_base_table [OF Suc.prems(1,2)]
  show ?case
  proof (cases "?o = ?n")
    case True
    then show ?thesis
      by (simp add: unf Let_def oid_range_Nil)
  next
    case False
    with Suc.prems(3) have lt: "?o < ?n" by simp
    let ?tg = "GetTileGroup tbl ?o"
    have bpl: "build_position_list (predicate ex) ?tg (ctx_txn_id ex) (ctx_last_commit_id ex)
                 (GetNextTupleSlot ?tg) 0 [] =
               Inr (visible_matching_slots (predicate ex) ?tg (ctx_txn_id ex)
                      (ctx_last_commit_id ex))"
      by (rule build_position_list_total) (use Suc.prems(4) in blast)
    define ex' where "ex' = ex\<lparr>target_table := Some tbl,
                    table_tile_group_count := GetTileGroupCount tbl,
                    column_ids := fill_column_ids ex tbl,
                    current_tile_group_offset := ?o + 1,
                    output_tile := Some (add_columns ?tg (fill_column_ids ex tbl)
                       (AddPositionList LogicalTileFactory_GetTile
                          (visible_matching_slots (predicate ex) ?tg (ctx_txn_id ex)
                             (ctx_last_commit_id ex))))\<rparr>"
    have step: "DExecute ex = Inr (True, ex')"
      using False by (simp add: unf Let_def bpl ex'_def)
    have u: "unat (?o + 1) = Suc (unat ?o)" using lt by unat_arith
    have le': "?o + 1 \<le> ?n" using lt by (rule inc_le)
    have fuel': "unat ?n - unat (current_tile_group_offset ex') < fuel"
      using Suc.prems(5) lt u by (simp add: ex'_def word_less_nat_alt)
    have "\<exists>outs. run_executor fuel ex' = Some (Inr outs) \<and>
           map (map_option position_lists) outs =
             map (\<lambda>k. Some [visible_matching_slots (predicate ex') (GetTileGroup tbl k)
                               (ctx_txn_id ex') (ctx_last_commit_id ex')])
                 (oid_range (current_tile_group_offset ex') (GetTileGroupCount tbl))"
      by (rule Suc.IH)
         (use Suc.prems le' fuel' in \<open>simp_all add: ex'_def\<close>)
    then obtain outs where outs: "run_executor fuel ex' = Some (Inr outs)"
      "map (map_option position_lists) outs =
             map (\<lambda>k. Some [visible_matching_slots (predicate ex) (GetTileGroup tbl k)
                               (ctx_txn_id ex) (ctx_last_commit_id ex)])
                 (oid_range (?o + 1) ?n)"
      by (auto simp: ex'_def)
    have out': "map_option position_lists (output_tile ex') =
        Some [visible_matching_slots (predicate ex) ?tg (ctx_txn_id ex) (ctx_last_commit_id ex)]"
      by (simp add: ex'_def AddPositionList_def LogicalTileFactory_GetTile_def)
    have "run_executor (Suc fuel) ex = Some (Inr (output_tile ex' # outs))"
      by (simp add: step outs(1))
    then show ?thesis
      using outs(2) out' by (simp add: oid_range_Cons [OF lt])
  qed
qed

lemma example_visible_matching:
  "visible_matching_slots None example_tile_group 99 10 = [0, 1, 3]"
proof -
  have u: "[0..<4] = [0, 1, 2, 3 :: nat]" by code_simp
  show ?thesis
    by (simp add: visible_matching_slots_def oid_range_def retained_def IsVisible_def
        GetHeader_def GetNextTupleSlot_def example_tile_group_def example_header_def
        INVALID_TXN_ID_def MAX_CID_def u)
qed

lemma example_predicate_defined:
  "predicate_defined None tg txn cid"
  by (simp add: predicate_defined_def eval_predicate_def)

text \<open>
  C2. Without children, \<open>DExecute\<close> returns false exactly when the current tile group
  offset equals the table's tile group count. Otherwise, if the predicate raises no error
  on a visible active slot, the call returns true, advances the offset by one and emits a
  logical tile whose only position list holds the retained slots of that one tile group:
  the slots below the next tuple slot that are visible and on which the predicate is
  absent or strictly true, in ascending order without duplicates. A scan started by
  \<open>DInit\<close> emits the tile groups in ascending offset order and then stops.
\<close>

theorem seq_scan_base_table:
  assumes "children ex = []" and "plan_table ex = Some tbl"
  shows "((\<exists>ex'. DExecute ex = Inr (False, ex')) \<longleftrightarrow>
            current_tile_group_offset ex = GetTileGroupCount tbl) \<and>
         (current_tile_group_offset ex \<noteq> GetTileGroupCount tbl \<longrightarrow>
          predicate_defined (predicate ex) (GetTileGroup tbl (current_tile_group_offset ex))
            (ctx_txn_id ex) (ctx_last_commit_id ex) \<longrightarrow>
          (\<exists>ex' lt. DExecute ex = Inr (True, ex') \<and>
             current_tile_group_offset ex' = current_tile_group_offset ex + 1 \<and>
             output_tile ex' = Some lt \<and>
             position_lists lt =
               [visible_matching_slots (predicate ex)
                  (GetTileGroup tbl (current_tile_group_offset ex))
                  (ctx_txn_id ex) (ctx_last_commit_id ex)])) \<and>
         (\<forall>tg. sorted_wrt (<) (visible_matching_slots (predicate ex) tg (ctx_txn_id ex)
                   (ctx_last_commit_id ex)) \<and>
               distinct (visible_matching_slots (predicate ex) tg (ctx_txn_id ex)
                   (ctx_last_commit_id ex)) \<and>
               set (visible_matching_slots (predicate ex) tg (ctx_txn_id ex)
                   (ctx_last_commit_id ex)) =
                 {s. s < GetNextTupleSlot tg \<and>
                     IsVisible (GetHeader tg) s (ctx_txn_id ex) (ctx_last_commit_id ex) \<and>
                     (predicate ex = None \<or>
                      (\<exists>p v. predicate ex = Some p \<and> p (TileGroupTuple tg s) = Inr v \<and>
                             IsTrue v))}) \<and>
         ((\<forall>k. predicate_defined (predicate ex) (GetTileGroup tbl k)
                 (ctx_txn_id ex) (ctx_last_commit_id ex)) \<longrightarrow>
          (\<exists>outs. run_executor (Suc (unat (GetTileGroupCount tbl))) (snd (DInit ex)) =
                     Some (Inr outs) \<and>
             map (map_option position_lists) outs =
               map (\<lambda>k. Some [visible_matching_slots (predicate ex) (GetTileGroup tbl k)
                                 (ctx_txn_id ex) (ctx_last_commit_id ex)])
                   (oid_range START_OID (GetTileGroupCount tbl))))"
proof (intro conjI impI allI)
  note unf = DExecute_base_table [OF assms]
  show "(\<exists>ex'. DExecute ex = Inr (False, ex')) \<longleftrightarrow>
            current_tile_group_offset ex = GetTileGroupCount tbl"
    by (auto simp: unf Let_def split: sum.splits)
next
  let ?tg = "GetTileGroup tbl (current_tile_group_offset ex)"
  assume ne: "current_tile_group_offset ex \<noteq> GetTileGroupCount tbl"
    and pd: "predicate_defined (predicate ex) ?tg (ctx_txn_id ex) (ctx_last_commit_id ex)"
  note unf = DExecute_base_table [OF assms]
  show "\<exists>ex' lt. DExecute ex = Inr (True, ex') \<and>
             current_tile_group_offset ex' = current_tile_group_offset ex + 1 \<and>
             output_tile ex' = Some lt \<and>
             position_lists lt =
               [visible_matching_slots (predicate ex) ?tg (ctx_txn_id ex) (ctx_last_commit_id ex)]"
    using ne
    by (simp add: unf Let_def build_position_list_total [OF pd] AddPositionList_def
        LogicalTileFactory_GetTile_def)
next
  fix tg :: "'a TileGroup"
  let ?l = "visible_matching_slots (predicate ex) tg (ctx_txn_id ex) (ctx_last_commit_id ex)"
  show s: "sorted_wrt (<) ?l" by (rule visible_matching_slots_sorted)
  then show "distinct ?l" by (simp add: strict_sorted_iff)
  show "set ?l = {s. s < GetNextTupleSlot tg \<and>
                     IsVisible (GetHeader tg) s (ctx_txn_id ex) (ctx_last_commit_id ex) \<and>
                     (predicate ex = None \<or>
                      (\<exists>p v. predicate ex = Some p \<and> p (TileGroupTuple tg s) = Inr v \<and>
                             IsTrue v))}"
  proof (cases "predicate ex")
    case None
    then show ?thesis by (auto simp: set_visible_matching_slots retained_def)
  next
    case (Some p)
    show ?thesis
    proof (rule set_eqI)
      fix s
      show "s \<in> set ?l \<longleftrightarrow> s \<in> {s. s < GetNextTupleSlot tg \<and>
                     IsVisible (GetHeader tg) s (ctx_txn_id ex) (ctx_last_commit_id ex) \<and>
                     (predicate ex = None \<or>
                      (\<exists>p v. predicate ex = Some p \<and> p (TileGroupTuple tg s) = Inr v \<and>
                             IsTrue v))}"
        by (cases "p (TileGroupTuple tg s)")
           (simp_all add: set_visible_matching_slots retained_def Some)
    qed
  qed
next
  assume pd: "\<forall>k. predicate_defined (predicate ex) (GetTileGroup tbl k)
                 (ctx_txn_id ex) (ctx_last_commit_id ex)"
  let ?ex = "snd (DInit ex)"
  have "\<exists>outs. run_executor (Suc (unat (GetTileGroupCount tbl))) ?ex = Some (Inr outs) \<and>
           map (map_option position_lists) outs =
             map (\<lambda>k. Some [visible_matching_slots (predicate ?ex) (GetTileGroup tbl k)
                               (ctx_txn_id ?ex) (ctx_last_commit_id ?ex)])
                 (oid_range (current_tile_group_offset ?ex) (GetTileGroupCount tbl))"
    by (rule run_executor_base_table)
       (use assms pd in \<open>simp_all add: DInit_def START_OID_def\<close>)
  then show "\<exists>outs. run_executor (Suc (unat (GetTileGroupCount tbl))) (snd (DInit ex)) =
                     Some (Inr outs) \<and>
             map (map_option position_lists) outs =
               map (\<lambda>k. Some [visible_matching_slots (predicate ex) (GetTileGroup tbl k)
                                 (ctx_txn_id ex) (ctx_last_commit_id ex)])
                   (oid_range START_OID (GetTileGroupCount tbl))"
    by (simp add: DInit_def)
qed

theorem seq_scan_base_table_witness:
  "children example_scan = [] \<and> plan_table example_scan = Some example_table \<and>
   current_tile_group_offset example_scan \<noteq> GetTileGroupCount example_table \<and>
   (\<forall>k. predicate_defined (predicate example_scan) (GetTileGroup example_table k)
          (ctx_txn_id example_scan) (ctx_last_commit_id example_scan)) \<and>
   (\<exists>ex' lt. DExecute example_scan = Inr (True, ex') \<and>
      current_tile_group_offset ex' = 1 \<and> output_tile ex' = Some lt \<and>
      position_lists lt = [[0, 1, 3]]) \<and>
   (\<exists>outs. run_executor 2 (snd (DInit example_scan)) = Some (Inr outs) \<and>
      map (map_option position_lists) outs = [Some [[0, 1, 3]]])"
proof -
  have c: "children example_scan = []" and p: "plan_table example_scan = Some example_table"
    by (simp_all add: example_scan_def)
  have ne: "current_tile_group_offset example_scan \<noteq> GetTileGroupCount example_table"
    by (simp add: example_scan_def example_table_def GetTileGroupCount_def)
  have pd: "\<forall>k. predicate_defined (predicate example_scan) (GetTileGroup example_table k)
          (ctx_txn_id example_scan) (ctx_last_commit_id example_scan)"
    by (simp add: example_scan_def example_predicate_defined)
  have sr: "oid_range START_OID (GetTileGroupCount example_table) = [0]"
    by (simp add: oid_range_def START_OID_def GetTileGroupCount_def example_table_def)
  have tg: "GetTileGroup example_table k = example_tile_group" for k
    by (simp add: GetTileGroup_def example_table_def)
  have f: "Suc (unat (GetTileGroupCount example_table)) = 2"
    by (simp add: GetTileGroupCount_def example_table_def)
  have fields: "predicate example_scan = None" "ctx_txn_id example_scan = 99"
    "ctx_last_commit_id example_scan = 10" "current_tile_group_offset example_scan = 0"
    by (simp_all add: example_scan_def)
  show ?thesis
    using seq_scan_base_table [OF c p] ne pd
    unfolding sr tg f fields example_visible_matching
    by (simp add: c p)
qed

subsection \<open>The predicate and invisible slots\<close>

lemma build_position_list_cong:
  assumes "\<And>s. IsVisible (GetHeader tg) s txn cid \<Longrightarrow>
             p (TileGroupTuple tg s) = q (TileGroupTuple tg s)"
  shows "build_position_list (Some p) tg txn cid n i acc =
         build_position_list (Some q) tg txn cid n i acc"
proof (induction "unat n - unat i" arbitrary: i acc)
  case 0
  then have "\<not> i < n" by (simp add: word_less_nat_alt)
  then show ?case by (simp add: build_position_list.simps [of _ _ _ _ n i])
next
  case (Suc d)
  then have lt: "i < n" by (simp add: word_less_nat_alt)
  then have u: "unat (i + 1) = Suc (unat i)" by unat_arith
  have d: "d = unat n - unat (i + 1)" using Suc(2) u by simp
  note IH = Suc(1) [OF d]
  show ?case
  proof (cases "IsVisible (GetHeader tg) i txn cid")
    case False
    then show ?thesis
      using lt IH by (simp add: build_position_list.simps [of _ _ _ _ n i])
  next
    case True
    then have "p (TileGroupTuple tg i) = q (TileGroupTuple tg i)" by (rule assms)
    then show ?thesis
      using lt True IH
      by (simp add: build_position_list.simps [of _ _ _ _ n i] split: sum.split)
  qed
qed

lemma DExecute_predicate_cong:
  assumes "children ex = []" and "plan_table ex = Some tbl"
    and "agree_on_visible p q tbl (ctx_txn_id ex) (ctx_last_commit_id ex)"
  shows "DExecute (ex\<lparr>predicate := Some q\<rparr>) =
           (case DExecute (ex\<lparr>predicate := Some p\<rparr>) of
              Inl e \<Rightarrow> Inl e
            | Inr (b, ex') \<Rightarrow> Inr (b, ex'\<lparr>predicate := Some q\<rparr>))"
proof -
  let ?tg = "GetTileGroup tbl (current_tile_group_offset ex)"
  have c: "build_position_list (Some p) ?tg (ctx_txn_id ex) (ctx_last_commit_id ex) n i acc =
           build_position_list (Some q) ?tg (ctx_txn_id ex) (ctx_last_commit_id ex) n i acc"
    for n i acc
    by (rule build_position_list_cong) (use assms(3) in \<open>simp add: agree_on_visible_def\<close>)
  show ?thesis
    by (subst DExecute_base_table [where tbl = tbl], (use assms in simp; fail)+,
        subst DExecute_base_table [where tbl = tbl], (use assms in simp; fail)+)
       (simp add: Let_def c fill_column_ids_def split: sum.split)
qed

lemma DExecute_base_table_preserves:
  assumes "children ex = []" and "plan_table ex = Some tbl" and "DExecute ex = Inr (b, ex')"
  shows "children ex' = [] \<and> plan_table ex' = Some tbl \<and> predicate ex' = predicate ex \<and>
         ctx_txn_id ex' = ctx_txn_id ex \<and> ctx_last_commit_id ex' = ctx_last_commit_id ex \<and>
         column_ids ex' = fill_column_ids ex tbl"
  using assms(3) unfolding DExecute_base_table [OF assms(1,2)]
  by (auto simp: Let_def assms(1,2) split: if_splits sum.splits)

lemma run_executor_predicate_cong:
  assumes "children ex = []" and "plan_table ex = Some tbl"
    and "agree_on_visible p q tbl (ctx_txn_id ex) (ctx_last_commit_id ex)"
  shows "run_executor fuel (ex\<lparr>predicate := Some q\<rparr>) =
         run_executor fuel (ex\<lparr>predicate := Some p\<rparr>)"
  using assms
proof (induction fuel arbitrary: ex)
  case 0
  then show ?case by simp
next
  case (Suc fuel)
  note cong = DExecute_predicate_cong [OF Suc.prems]
  show ?case
  proof (cases "DExecute (ex\<lparr>predicate := Some p\<rparr>)")
    case (Inl e)
    then show ?thesis by (simp add: cong)
  next
    case (Inr r)
    obtain b ex' where r: "r = (b, ex')" by (cases r)
    have pres: "children ex' = [] \<and> plan_table ex' = Some tbl \<and>
         predicate ex' = predicate (ex\<lparr>predicate := Some p\<rparr>) \<and>
         ctx_txn_id ex' = ctx_txn_id (ex\<lparr>predicate := Some p\<rparr>) \<and>
         ctx_last_commit_id ex' = ctx_last_commit_id (ex\<lparr>predicate := Some p\<rparr>) \<and>
         column_ids ex' = fill_column_ids (ex\<lparr>predicate := Some p\<rparr>) tbl"
      by (rule DExecute_base_table_preserves [where b = b])
         (use Suc.prems Inr r in simp_all)
    then have same: "ex'\<lparr>predicate := Some p\<rparr> = ex'" by simp
    have "run_executor fuel (ex'\<lparr>predicate := Some q\<rparr>) =
          run_executor fuel (ex'\<lparr>predicate := Some p\<rparr>)"
      by (rule Suc.IH) (use pres Suc.prems(3) in simp_all)
    then have "run_executor fuel (ex'\<lparr>predicate := Some q\<rparr>) = run_executor fuel ex'"
      by (simp only: same)
    then show ?thesis
      by (simp add: cong Inr r split: option.split sum.split)
  qed
qed

lemma run_executor_base_table_returns:
  assumes "children ex = []" and "plan_table ex = Some tbl"
    and "current_tile_group_offset ex \<le> GetTileGroupCount tbl"
    and "unat (GetTileGroupCount tbl) - unat (current_tile_group_offset ex) < fuel"
  shows "run_executor fuel ex \<noteq> None"
  using assms
proof (induction fuel arbitrary: ex)
  case 0
  then show ?case by simp
next
  case (Suc fuel)
  show ?case
  proof (cases "DExecute ex")
    case (Inl e)
    then show ?thesis by simp
  next
    case (Inr r)
    obtain b ex' where r: "r = (b, ex')" by (cases r)
    show ?thesis
    proof (cases b)
      case False
      then show ?thesis by (simp add: Inr r)
    next
      case True
      note pres = DExecute_base_table_preserves [OF Suc.prems(1,2) Inr [unfolded r]]
      have ne: "current_tile_group_offset ex \<noteq> GetTileGroupCount tbl"
        and off: "current_tile_group_offset ex' = current_tile_group_offset ex + 1"
        using Inr r True unfolding DExecute_base_table [OF Suc.prems(1,2)]
        by (auto simp: Let_def split: if_splits sum.splits)
      from ne Suc.prems(3) have lt: "current_tile_group_offset ex < GetTileGroupCount tbl"
        by simp
      then have u: "unat (current_tile_group_offset ex + 1) =
                    Suc (unat (current_tile_group_offset ex))"
        by unat_arith
      have "run_executor fuel ex' \<noteq> None"
      proof (rule Suc.IH)
        show "children ex' = []" "plan_table ex' = Some tbl" using pres by simp_all
        show "current_tile_group_offset ex' \<le> GetTileGroupCount tbl"
          unfolding off using lt by (rule inc_le)
        show "unat (GetTileGroupCount tbl) - unat (current_tile_group_offset ex') < fuel"
          using Suc.prems(4) lt u by (simp add: off word_less_nat_alt)
      qed
      then show ?thesis
        by (auto simp: Inr r True split: option.splits sum.splits)
    qed
  qed
qed

text \<open>
  C10. In the base-table mode the predicate is not evaluated on invisible slots: two
  predicates that agree on every visible slot of every tile group give the same scan, the
  same outputs and the same error if there is one, whatever they do on invisible slots;
  and the scan ends within one call more than there are tile groups.
\<close>

theorem seq_scan_predicate_only_on_visible:
  assumes "children ex = []" and "plan_table ex = Some tbl"
    and "agree_on_visible p q tbl (ctx_txn_id ex) (ctx_last_commit_id ex)"
  shows "run_executor fuel (snd (DInit (ex\<lparr>predicate := Some p\<rparr>))) =
         run_executor fuel (snd (DInit (ex\<lparr>predicate := Some q\<rparr>))) \<and>
         (unat (GetTileGroupCount tbl) < fuel \<longrightarrow>
          run_executor fuel (snd (DInit (ex\<lparr>predicate := Some p\<rparr>))) \<noteq> None)"
proof
  let ?ex = "ex\<lparr>current_tile_group_offset := START_OID\<rparr>"
  have init: "snd (DInit (ex\<lparr>predicate := Some r\<rparr>)) = ?ex\<lparr>predicate := Some r\<rparr>" for r
    by (simp add: DInit_def)
  have "run_executor fuel (?ex\<lparr>predicate := Some q\<rparr>) =
        run_executor fuel (?ex\<lparr>predicate := Some p\<rparr>)"
    by (rule run_executor_predicate_cong) (use assms in simp_all)
  then show "run_executor fuel (snd (DInit (ex\<lparr>predicate := Some p\<rparr>))) =
         run_executor fuel (snd (DInit (ex\<lparr>predicate := Some q\<rparr>)))"
    unfolding init by (rule sym)
  show "unat (GetTileGroupCount tbl) < fuel \<longrightarrow>
          run_executor fuel (snd (DInit (ex\<lparr>predicate := Some p\<rparr>))) \<noteq> None"
  proof
    assume "unat (GetTileGroupCount tbl) < fuel"
    then show "run_executor fuel (snd (DInit (ex\<lparr>predicate := Some p\<rparr>))) \<noteq> None"
      by (intro run_executor_base_table_returns [where tbl = tbl])
         (use assms in \<open>simp_all add: DInit_def START_OID_def\<close>)
  qed
qed

theorem seq_scan_predicate_only_on_visible_witness:
  "children example_scan = [] \<and> plan_table example_scan = Some example_table \<and>
   agree_on_visible example_true_predicate example_failing_predicate example_table 99 10 \<and>
   example_true_predicate (TileGroupTuple example_tile_group 2) \<noteq>
     example_failing_predicate (TileGroupTuple example_tile_group 2) \<and>
   unat (GetTileGroupCount example_table) < 2 \<and>
   run_executor 2 (snd (DInit (example_scan\<lparr>predicate := Some example_true_predicate\<rparr>))) =
   run_executor 2 (snd (DInit (example_scan\<lparr>predicate := Some example_failing_predicate\<rparr>))) \<and>
   run_executor 2 (snd (DInit (example_scan\<lparr>predicate := Some example_true_predicate\<rparr>))) \<noteq> None"
proof -
  have c: "children example_scan = []" and p: "plan_table example_scan = Some example_table"
    by (simp_all add: example_scan_def)
  have a: "agree_on_visible example_true_predicate example_failing_predicate example_table
             (ctx_txn_id example_scan) (ctx_last_commit_id example_scan)"
    by (simp add: agree_on_visible_def example_true_predicate_def example_failing_predicate_def
        example_table_def GetTileGroup_def GetHeader_def example_tile_group_def
        example_header_def IsVisible_def example_scan_def MAX_CID_def INVALID_TXN_ID_def)
  have f: "unat (GetTileGroupCount example_table) < 2"
    by (simp add: GetTileGroupCount_def example_table_def)
  have d: "example_true_predicate (TileGroupTuple example_tile_group 2) \<noteq>
     example_failing_predicate (TileGroupTuple example_tile_group 2)"
    by (simp add: example_true_predicate_def example_failing_predicate_def)
  have ctx: "ctx_txn_id example_scan = 99" "ctx_last_commit_id example_scan = 10"
    by (simp_all add: example_scan_def)
  show ?thesis
    using seq_scan_predicate_only_on_visible [OF c p a, of 2] c p a f d
    unfolding ctx by blast
qed

text \<open>
  C4. In the base-table mode the column ids are filled with all column ids of the schema,
  in order, when none were requested, and an emitted logical tile has exactly one position
  list and one column binding per column id, each resolved by \<open>LocateTileAndColumn\<close> and
  \<open>GetTile\<close>, with position list index 0 and \<open>own_base_tile\<close> false.
\<close>

theorem seq_scan_base_table_output_shape:
  assumes "children ex = []" and "plan_table ex = Some tbl" and "DExecute ex = Inr (b, ex')"
  shows "column_ids ex' =
           (if column_ids ex = [] then map of_nat [0..<unat (schema_column_count tbl)]
            else column_ids ex) \<and>
         (b \<longrightarrow>
          (\<exists>lt. output_tile ex' = Some lt \<and> length (position_lists lt) = 1 \<and>
             columns lt =
               map (\<lambda>c. \<lparr>base_tile =
                            GetTile (GetTileGroup tbl (current_tile_group_offset ex))
                              (fst (LocateTileAndColumn
                                 (GetTileGroup tbl (current_tile_group_offset ex)) c)),
                          own_base_tile = False,
                          origin_column_id =
                            snd (LocateTileAndColumn
                                   (GetTileGroup tbl (current_tile_group_offset ex)) c),
                          position_list_idx = 0\<rparr>)
                   (column_ids ex')))"
proof
  show "column_ids ex' =
           (if column_ids ex = [] then map of_nat [0..<unat (schema_column_count tbl)]
            else column_ids ex)"
    using DExecute_base_table_preserves [OF assms] by (simp add: fill_column_ids_def)
  show "b \<longrightarrow>
          (\<exists>lt. output_tile ex' = Some lt \<and> length (position_lists lt) = 1 \<and>
             columns lt =
               map (\<lambda>c. \<lparr>base_tile =
                            GetTile (GetTileGroup tbl (current_tile_group_offset ex))
                              (fst (LocateTileAndColumn
                                 (GetTileGroup tbl (current_tile_group_offset ex)) c)),
                          own_base_tile = False,
                          origin_column_id =
                            snd (LocateTileAndColumn
                                   (GetTileGroup tbl (current_tile_group_offset ex)) c),
                          position_list_idx = 0\<rparr>)
                   (column_ids ex'))"
    using assms(3) unfolding DExecute_base_table [OF assms(1,2)]
    by (auto simp: Let_def add_columns_columns AddPositionList_def LogicalTileFactory_GetTile_def
        split: if_splits sum.splits)
qed

theorem seq_scan_base_table_output_shape_witness:
  "\<exists>ex' lt. children example_scan = [] \<and> plan_table example_scan = Some example_table \<and>
     DExecute example_scan = Inr (True, ex') \<and> column_ids example_scan = [] \<and>
     column_ids ex' = [0] \<and> output_tile ex' = Some lt \<and> length (position_lists lt) = 1 \<and>
     columns lt = [\<lparr>base_tile = 0, own_base_tile = False, origin_column_id = 0,
                    position_list_idx = 0\<rparr>]"
proof -
  have c: "children example_scan = []" and p: "plan_table example_scan = Some example_table"
    by (simp_all add: example_scan_def)
  have "\<exists>ex'. DExecute example_scan = Inr (True, ex')"
    unfolding DExecute_base_table [OF c p]
    by (simp add: Let_def build_position_list_total [OF example_predicate_defined]
        example_scan_def example_table_def GetTileGroupCount_def)
  then obtain ex' where e: "DExecute example_scan = Inr (True, ex')" ..
  have u: "[0..<unat (schema_column_count example_table)] = [0]"
    by (simp add: example_table_def)
  show ?thesis
    using seq_scan_base_table_output_shape [OF c p e] c p e
    by (auto simp: u example_scan_def example_table_def GetTileGroup_def GetTile_def
        LocateTileAndColumn_def example_tile_group_def)
qed

text \<open>
  C1. In the one-child mode the loop clears a position when the predicate is strictly
  false (\<open>IsFalse\<close>), so a position on which the predicate is null stays visible: on the
  example, position 0 (null) and position 2 (true) are kept and position 1 (false) is
  cleared.
\<close>

theorem seq_scan_child_keeps_null:
  "\<exists>ex' lt. DExecute example_child_scan = Inr (True, ex') \<and> output_tile ex' = Some lt \<and>
     example_null_predicate (LogicalTileTuple example_child_tile 0) = Inr TriNull \<and>
     \<not> IsTrue TriNull \<and>
     visible_rows example_child_tile = [True, True, True] \<and>
     visible_rows lt = [True, False, True]"
proof -
  have u: "[0..<3] = [0, 1, 2 :: nat]" by code_simp
  show ?thesis
    by (simp add: DExecute_def example_child_scan_def example_child_tile_def all_positions_def u
        IsPositionVisible_def RemoveVisibility_def example_null_predicate_def)
qed

section \<open>Properties of tuple records and tiles\<close>

lemma example_tile_new:
  "Tile_new 0xFFFFFFFF None 0 example_backend example_schema 2 [[97]] False =
     (Inr (example_tile 2), example_backend\<lparr>allocated := [8]\<rparr>)"
  by (simp add: Tile_new_def example_backend_def example_schema_def example_tile_def Allocate_def
      GetLength_def IsInlined_def GetColumnCount_def)

subsection \<open>Tuple records\<close>

text \<open>
  C9, as stated, fails: the constructor that takes only the record type zeroes both
  locations, and the full constructor stores whatever locations it is given, here an
  insert record with a zero insert location and a non-zero delete location.
\<close>

theorem tuple_record_location_counterexample:
  "\<not> location_invariant (TupleRecord_of_type 0xFFFFFFFF LOGRECORD_TYPE_TUPLE_INSERT) \<and>
   TupleRecord_new 0xFFFFFFFF 1 LOGRECORD_TYPE_TUPLE_INSERT 5 7 zero_ItemPointer
     \<lparr>block = 1, offset = 2\<rparr> None 0xFFFFFFFF =
     Inr \<lparr>log_record_type = LOGRECORD_TYPE_TUPLE_INSERT, txn_id = 5, table_oid = 7,
          insert_location = zero_ItemPointer, delete_location = \<lparr>block = 1, offset = 2\<rparr>,
          record_data = None, db_oid = 1\<rparr> \<and>
   \<not> location_invariant
       \<lparr>log_record_type = LOGRECORD_TYPE_TUPLE_INSERT, txn_id = 5, table_oid = 7,
        insert_location = zero_ItemPointer, delete_location = \<lparr>block = 1, offset = 2\<rparr>,
        record_data = None, db_oid = 1\<rparr>"
  by (simp add: location_invariant_def TupleRecord_of_type_def TupleRecord_new_def
      valid_location_def zero_ItemPointer_def)

text \<open>
  C9, amended. The full constructor fails exactly when the transaction id, the table id
  or the database id (the current database's when \<open>INVALID_OID\<close> was given) is zero, and
  otherwise builds the record with the record type and the insert and delete locations
  it was given, unchanged: it looks at no location, so the record satisfies the location
  invariant of its type exactly when the supplied locations do. The constructor that
  takes only the record type zeroes both locations, which fits no record type.
\<close>

theorem tuple_record_locations_as_supplied:
  "TupleRecord_new INVALID_OID current_database_oid record_type txn tbl ins del payload db =
     (if txn = 0 \<or> tbl = 0 \<or> (if db = INVALID_OID then current_database_oid else db) = 0
      then Inl AssertionFailure
      else Inr \<lparr>log_record_type = record_type, txn_id = txn, table_oid = tbl,
                insert_location = ins, delete_location = del, record_data = payload,
                db_oid = (if db = INVALID_OID then current_database_oid else db)\<rparr>) \<and>
   (TupleRecord_new INVALID_OID current_database_oid record_type txn tbl ins del payload db =
      Inr r \<longrightarrow>
    log_record_type r = record_type \<and> insert_location r = ins \<and> delete_location r = del \<and>
    (location_invariant r \<longleftrightarrow> locations_fit record_type ins del)) \<and>
   TupleRecord_of_type INVALID_OID record_type =
     \<lparr>log_record_type = record_type, txn_id = INVALID_TXN_ID, table_oid = INVALID_OID,
      insert_location = zero_ItemPointer, delete_location = zero_ItemPointer,
      record_data = None, db_oid = INVALID_OID\<rparr> \<and>
   \<not> location_invariant (TupleRecord_of_type INVALID_OID record_type)"
proof (intro conjI impI)
  show "TupleRecord_new INVALID_OID current_database_oid record_type txn tbl ins del payload db =
     (if txn = 0 \<or> tbl = 0 \<or> (if db = INVALID_OID then current_database_oid else db) = 0
      then Inl AssertionFailure
      else Inr \<lparr>log_record_type = record_type, txn_id = txn, table_oid = tbl,
                insert_location = ins, delete_location = del, record_data = payload,
                db_oid = (if db = INVALID_OID then current_database_oid else db)\<rparr>)"
    by (simp add: TupleRecord_new_def Let_def)
next
  assume a: "TupleRecord_new INVALID_OID current_database_oid record_type txn tbl ins del
               payload db = Inr r"
  then have r: "log_record_type r = record_type" "insert_location r = ins"
      "delete_location r = del"
    by (auto simp: TupleRecord_new_def Let_def split: if_splits)
  then show "log_record_type r = record_type" "insert_location r = ins"
      "delete_location r = del"
    by simp_all
  from r show "location_invariant r \<longleftrightarrow> locations_fit record_type ins del"
    by (simp add: location_invariant_def)
next
  show "TupleRecord_of_type INVALID_OID record_type =
     \<lparr>log_record_type = record_type, txn_id = INVALID_TXN_ID, table_oid = INVALID_OID,
      insert_location = zero_ItemPointer, delete_location = zero_ItemPointer,
      record_data = None, db_oid = INVALID_OID\<rparr>"
    by (simp add: TupleRecord_of_type_def)
  show "\<not> location_invariant (TupleRecord_of_type INVALID_OID record_type)"
    by (cases record_type)
       (simp_all add: location_invariant_def TupleRecord_of_type_def valid_location_def)
qed

text \<open>
  At concrete arguments: an insert record with a valid insert location and a zero delete
  location is built and satisfies its invariant; a delete record whose two locations are
  zero is built as well, and does not; a zero transaction id fails the assertion.
\<close>

theorem tuple_record_locations_as_supplied_witness:
  "TupleRecord_new 0xFFFFFFFF 1 LOGRECORD_TYPE_TUPLE_INSERT 5 7 \<lparr>block = 1, offset = 2\<rparr>
     zero_ItemPointer None 0xFFFFFFFF =
     Inr \<lparr>log_record_type = LOGRECORD_TYPE_TUPLE_INSERT, txn_id = 5, table_oid = 7,
          insert_location = \<lparr>block = 1, offset = 2\<rparr>, delete_location = zero_ItemPointer,
          record_data = None, db_oid = 1\<rparr> \<and>
   location_invariant
     \<lparr>log_record_type = LOGRECORD_TYPE_TUPLE_INSERT, txn_id = 5, table_oid = 7,
      insert_location = \<lparr>block = 1, offset = 2\<rparr>, delete_location = zero_ItemPointer,
      record_data = None, db_oid = 1\<rparr> \<and>
   TupleRecord_new 0xFFFFFFFF 1 LOGRECORD_TYPE_TUPLE_DELETE 5 7 zero_ItemPointer
     zero_ItemPointer None 3 =
     Inr \<lparr>log_record_type = LOGRECORD_TYPE_TUPLE_DELETE, txn_id = 5, table_oid = 7,
          insert_location = zero_ItemPointer, delete_location = zero_ItemPointer,
          record_data = None, db_oid = 3\<rparr> \<and>
   \<not> location_invariant
       \<lparr>log_record_type = LOGRECORD_TYPE_TUPLE_DELETE, txn_id = 5, table_oid = 7,
        insert_location = zero_ItemPointer, delete_location = zero_ItemPointer,
        record_data = None, db_oid = 3\<rparr> \<and>
   TupleRecord_new 0xFFFFFFFF 1 LOGRECORD_TYPE_TUPLE_INSERT 0 7 \<lparr>block = 1, offset = 2\<rparr>
     zero_ItemPointer None 0xFFFFFFFF = Inl AssertionFailure"
proof -
  note ins = tuple_record_locations_as_supplied [of "0xFFFFFFFF" 1 LOGRECORD_TYPE_TUPLE_INSERT
      5 7 "\<lparr>block = 1, offset = 2\<rparr>" zero_ItemPointer None "0xFFFFFFFF"
      "\<lparr>log_record_type = LOGRECORD_TYPE_TUPLE_INSERT, txn_id = 5, table_oid = 7,
        insert_location = \<lparr>block = 1, offset = 2\<rparr>, delete_location = zero_ItemPointer,
        record_data = None, db_oid = 1\<rparr>"]
  note del = tuple_record_locations_as_supplied [of "0xFFFFFFFF" 1 LOGRECORD_TYPE_TUPLE_DELETE
      5 7 zero_ItemPointer zero_ItemPointer None 3
      "\<lparr>log_record_type = LOGRECORD_TYPE_TUPLE_DELETE, txn_id = 5, table_oid = 7,
        insert_location = zero_ItemPointer, delete_location = zero_ItemPointer,
        record_data = None, db_oid = 3\<rparr>"]
  note bad = tuple_record_locations_as_supplied [of "0xFFFFFFFF" 1 LOGRECORD_TYPE_TUPLE_INSERT
      0 7 "\<lparr>block = 1, offset = 2\<rparr>" zero_ItemPointer None "0xFFFFFFFF"]
  have f: "locations_fit LOGRECORD_TYPE_TUPLE_INSERT \<lparr>block = 1, offset = 2\<rparr> zero_ItemPointer"
    "\<not> locations_fit LOGRECORD_TYPE_TUPLE_DELETE zero_ItemPointer zero_ItemPointer"
    by (simp_all add: valid_location_def zero_ItemPointer_def)
  from ins del bad f show ?thesis by simp
qed

subsection \<open>Tile construction\<close>

text \<open>
  C7, as stated, fails: when the backend returns null the constructor stops at the failed
  assertion \<open>data != NULL\<close>; no allocation error is raised.
\<close>

theorem tile_new_null_counterexample:
  "Tile_new 0xFFFFFFFF None 0 exhausted_backend example_schema 2 [[97]] False =
     (Inl AssertionFailure, exhausted_backend) \<and>
   \<not> can_allocate exhausted_backend (2 * 4) \<and>
   fst (Tile_new 0xFFFFFFFF None 0 exhausted_backend example_schema 2 [[97]] False) \<noteq>
     Inl AllocationError"
  by (simp add: Tile_new_def exhausted_backend_def example_schema_def Allocate_def GetLength_def)

text \<open>
  C7, amended. For a positive tuple count the constructor requests exactly
  \<open>tuple_count * tuple_length\<close> bytes from the backend. If the backend serves the request,
  the tile's data are that many zero bytes and the tile has a pool, bound to the same
  backend, exactly when the schema is not inlined. If the backend returns null, or the
  tuple count is not positive, construction ends in a failed assertion.
\<close>

theorem tile_new_allocates_and_zeroes:
  "(0 < sint tuple_count \<and> can_allocate bs (nat (sint tuple_count) * GetLength s) \<longrightarrow>
      (\<exists>tile. Tile_new INVALID_ID hdr b bs s tuple_count names own =
                (Inr tile, bs\<lparr>allocated := allocated bs @
                                 [nat (sint tuple_count) * GetLength s]\<rparr>) \<and>
              data tile = replicate (nat (sint tuple_count) * GetLength s) 0 \<and>
              backend tile = b \<and>
              (pool tile = (if IsInlined s then None else Some \<lparr>pool_backend = b\<rparr>)))) \<and>
   (0 < sint tuple_count \<and> \<not> can_allocate bs (nat (sint tuple_count) * GetLength s) \<longrightarrow>
      Tile_new INVALID_ID hdr b bs s tuple_count names own = (Inl AssertionFailure, bs)) \<and>
   (\<not> 0 < sint tuple_count \<longrightarrow>
      Tile_new INVALID_ID hdr b bs s tuple_count names own = (Inl AssertionFailure, bs))"
  by (simp add: Tile_new_def Allocate_def Let_def)

theorem tile_new_allocates_and_zeroes_witness:
  "0 < sint (2 :: 32 word) \<and> can_allocate example_backend (nat (sint (2 :: 32 word)) * GetLength example_schema) \<and>
   (\<exists>tile. Tile_new 0xFFFFFFFF None 0 example_backend example_schema 2 [[97]] False =
             (Inr tile, example_backend\<lparr>allocated := [8]\<rparr>) \<and>
            data tile = replicate 8 0 \<and> pool tile = None) \<and>
   0 < sint (2 :: 32 word) \<and> \<not> can_allocate exhausted_backend (nat (sint (2 :: 32 word)) * GetLength example_schema) \<and>
   Tile_new 0xFFFFFFFF None 0 exhausted_backend example_schema 2 [[97]] False =
     (Inl AssertionFailure, exhausted_backend) \<and>
   \<not> 0 < sint (0 :: 32 word) \<and>
   Tile_new 0xFFFFFFFF None 0 example_backend example_schema 0 [[97]] False =
     (Inl AssertionFailure, example_backend)"
proof -
  have g: "GetLength example_schema = 4" "IsInlined example_schema"
    by (simp_all add: GetLength_def IsInlined_def example_schema_def)
  have c: "can_allocate example_backend (nat (sint (2 :: 32 word)) * GetLength example_schema)"
    "\<not> can_allocate exhausted_backend (nat (sint (2 :: 32 word)) * GetLength example_schema)"
    "allocated example_backend = []"
    by (simp_all add: g example_backend_def exhausted_backend_def)
  show ?thesis
    using tile_new_allocates_and_zeroes [of 2 example_backend example_schema "0xFFFFFFFF" None 0
        "[[97]]" False]
      tile_new_allocates_and_zeroes [of 2 exhausted_backend example_schema "0xFFFFFFFF" None 0
        "[[97]]" False]
      tile_new_allocates_and_zeroes [of 0 example_backend example_schema "0xFFFFFFFF" None 0
        "[[97]]" False]
      c
    by (auto simp: g)
qed

subsection \<open>Tile equality\<close>

text \<open>
  What \<open>Tile::operator==\<close> computes: the loop accepts when the tuples of this tile match
  a prefix of the tuples of the other tile.
\<close>

lemma tuples_equal_iff:
  "tuples_equal tuple_equal xs ys \<longleftrightarrow>
     length xs \<le> length ys \<and> list_all2 tuple_equal xs (take (length xs) ys)"
proof (induction tuple_equal xs ys rule: tuples_equal.induct)
  case (1 tuple_equal others)
  then show ?case by simp
next
  case (2 tuple_equal tuple rest)
  then show ?case by simp
next
  case (3 tuple_equal tuple rest other_tuple other_rest)
  then show ?case by auto
qed

lemma Tile_equal_iff:
  "Tile_equal tuple_equal tile other \<longleftrightarrow>
     column_count tile = column_count other \<and> database_id tile = database_id other \<and>
     schema_columns (schema tile) = schema_columns (schema other) \<and>
     length (tile_tuples tile) \<le> length (tile_tuples other) \<and>
     list_all2 tuple_equal (tile_tuples tile)
       (take (length (tile_tuples tile)) (tile_tuples other))"
  by (simp add: Tile_equal_def Schema_not_equal_def tuples_equal_iff)

lemma example_tile_tuples_1: "tile_tuples (example_tile 1) = [[0, 0, 0, 0]]"
proof -
  have r: "replicate 4 (0 :: byte) = [0, 0, 0, 0]" by (simp add: numeral_Bit0 numeral_Bit1)
  show ?thesis
    by (simp add: tile_tuples_def oid_range_def example_tile_def tuple_at_def
        GetTupleLocation_def r)
qed

lemma example_tile_tuples_2: "tile_tuples (example_tile 2) = [[0, 0, 0, 0], [0, 0, 0, 0]]"
proof -
  have r: "replicate 8 (0 :: byte) = [0, 0, 0, 0, 0, 0, 0, 0]" by code_simp
  have u: "[0..<2] = [0, 1 :: nat]" by code_simp
  show ?thesis
    by (simp add: tile_tuples_def oid_range_def example_tile_def tuple_at_def
        GetTupleLocation_def r u)
qed

text \<open>
  C8. Two tiles built by the constructor with the same schema, one slot and two slots,
  all bytes zero: the tuples of the first are a proper prefix of the tuples of the second.
  \<open>operator==\<close> returns true for the first against the second and false for the second
  against the first.
\<close>

theorem tile_equal_prefix_accepted:
  "Tile_new 0xFFFFFFFF None 0 example_backend example_schema 1 [[97]] False =
     (Inr (example_tile 1), example_backend\<lparr>allocated := [4]\<rparr>) \<and>
   Tile_new 0xFFFFFFFF None 0 example_backend example_schema 2 [[97]] False =
     (Inr (example_tile 2), example_backend\<lparr>allocated := [8]\<rparr>) \<and>
   tile_tuples (example_tile 1) = [[0, 0, 0, 0]] \<and>
   tile_tuples (example_tile 2) = [[0, 0, 0, 0], [0, 0, 0, 0]] \<and>
   Tile_equal (=) (example_tile 1) (example_tile 2) = True \<and>
   Tile_equal (=) (example_tile 2) (example_tile 1) = False"
proof -
  have a: "Tile_new 0xFFFFFFFF None 0 example_backend example_schema 1 [[97]] False =
     (Inr (example_tile 1), example_backend\<lparr>allocated := [4]\<rparr>)"
    by (simp add: Tile_new_def example_backend_def example_schema_def example_tile_def
        Allocate_def GetLength_def IsInlined_def GetColumnCount_def)
  have b: "Tile_new 0xFFFFFFFF None 0 example_backend example_schema 2 [[97]] False =
     (Inr (example_tile 2), example_backend\<lparr>allocated := [8]\<rparr>)"
    by (simp add: Tile_new_def example_backend_def example_schema_def example_tile_def
        Allocate_def GetLength_def IsInlined_def GetColumnCount_def)
  have f: "column_count (example_tile n) = 1" "database_id (example_tile n) = 0xFFFFFFFF"
    "schema (example_tile n) = example_schema" for n
    by (simp_all add: example_tile_def)
  have c: "Tile_equal (=) (example_tile 1) (example_tile 2) = True"
    by (simp add: Tile_equal_def f Schema_not_equal_def example_tile_tuples_1
        example_tile_tuples_2)
  have d: "Tile_equal (=) (example_tile 2) (example_tile 1) = False"
    by (simp add: Tile_equal_def f Schema_not_equal_def example_tile_tuples_1
        example_tile_tuples_2)
  show ?thesis
    using a b c d example_tile_tuples_1 example_tile_tuples_2 by simp
qed

subsection \<open>Serialization of the header\<close>

lemma length_be32 [simp]: "length (be32 v) = 4"
  by (simp add: be32_def)

lemma length_be16 [simp]: "length (be16 v) = 2"
  by (simp add: be16_def)

lemma map_nth_oid_range:
  assumes "unat n \<le> length xs"
  shows "map (\<lambda>i. f (xs ! unat i)) (oid_range 0 n) = map f (take (unat n) xs)"
proof (rule nth_equalityI)
  show "length (map (\<lambda>i. f (xs ! unat i)) (oid_range 0 n)) = length (map f (take (unat n) xs))"
    using assms by (simp add: oid_range_def)
next
  fix k assume "k < length (map (\<lambda>i. f (xs ! unat i)) (oid_range 0 n))"
  then have k: "k < unat n" by (simp add: oid_range_def)
  then have "k < 2 ^ 32" using unat_oid_bound [of n] by simp
  then have "unat (of_nat k :: oid_t) = k" by (rule unat_of_nat_oid)
  then show "map (\<lambda>i. f (xs ! unat i)) (oid_range 0 n) ! k = map f (take (unat n) xs) ! k"
    using k assms by (simp add: oid_range_def)
qed

lemma unat_oid_range_less: "i \<in> set (oid_range 0 n) \<Longrightarrow> unat i < unat n"
  by (simp add: set_oid_range word_less_nat_alt)

lemma write_column_types_eq:
  "\<forall>i \<in> set is. unat i < length (schema_columns s) \<Longrightarrow>
   write_column_types s is out =
     Inr (out @ map (\<lambda>i. ucast (column_type (schema_columns s ! unat i))) is)"
  by (induction "is" arbitrary: out) (simp_all add: WriteByte_def)

lemma sint_of_nat_length:
  assumes "n < 2 ^ 31"
  shows "sint (of_nat n :: 32 word) = int n"
proof -
  have "sint (of_nat n :: 32 word) = signed_take_bit 31 (int n)"
    by (simp add: signed_of_nat)
  also have "\<dots> = int n"
    using assms by (simp add: signed_take_bit_int_eq_self_iff)
  finally show ?thesis .
qed

lemma write_column_names_eq:
  "\<forall>i \<in> set is. unat i < length names \<and> length (names ! unat i) < 2 ^ 31 \<Longrightarrow>
   write_column_names names is out =
     Inr (out @ concat (map (\<lambda>i. be32 (of_nat (length (names ! unat i))) @ names ! unat i) is))"
  by (induction "is" arbitrary: out)
     (simp_all add: WriteBytes_def WriteInt_def Let_def sint_of_nat_length)

lemma header_bytes_cache [simp]:
  "header_bytes (tile\<lparr>column_header_size := n, column_header := c\<rparr>) = header_bytes tile"
  by (simp add: header_bytes_def header_body_def column_type_bytes_def column_name_bytes_def)

lemma length_header_bytes: "length (header_bytes tile) = 4 + length (header_body tile)"
  by (simp add: header_bytes_def)

lemma header_loops:
  assumes "header_representable INVALID_ID tile"
  shows "write_column_types (schema tile) (oid_range 0 (column_count tile)) out =
           Inr (out @ column_type_bytes tile)"
    and "write_column_names (column_names tile) (oid_range 0 (column_count tile)) out =
           Inr (out @ column_name_bytes tile)"
proof -
  let ?n = "column_count tile"
  have le: "unat ?n \<le> length (schema_columns (schema tile))"
    "unat ?n \<le> length (column_names tile)"
    and short: "\<forall>name \<in> set (take (unat ?n) (column_names tile)). length name < 2 ^ 31"
    using assms by (simp_all add: header_representable_def)
  have "write_column_types (schema tile) (oid_range 0 ?n) out =
     Inr (out @ map (\<lambda>i. ucast (column_type (schema_columns (schema tile) ! unat i)))
                  (oid_range 0 ?n))"
    by (rule write_column_types_eq) (use le unat_oid_range_less in fastforce)
  then show "write_column_types (schema tile) (oid_range 0 ?n) out =
           Inr (out @ column_type_bytes tile)"
    by (simp add: column_type_bytes_def
        map_nth_oid_range [OF le(1), where f = "\<lambda>c. ucast (column_type c)"])
  have in_take: "column_names tile ! unat i \<in> set (take (unat ?n) (column_names tile))"
    if "i \<in> set (oid_range 0 ?n)" for i
  proof -
    have "unat i < unat ?n" using that by (rule unat_oid_range_less)
    then have "take (unat ?n) (column_names tile) ! unat i = column_names tile ! unat i"
      "unat i < length (take (unat ?n) (column_names tile))"
      using le(2) by simp_all
    then show ?thesis by (metis nth_mem)
  qed
  have "write_column_names (column_names tile) (oid_range 0 ?n) out =
     Inr (out @ concat (map (\<lambda>i. be32 (of_nat (length (column_names tile ! unat i))) @
                                  column_names tile ! unat i) (oid_range 0 ?n)))"
  proof (rule write_column_names_eq, rule ballI)
    fix i assume i: "i \<in> set (oid_range 0 ?n)"
    then have "unat i < unat ?n" by (rule unat_oid_range_less)
    then show "unat i < length (column_names tile) \<and>
               length (column_names tile ! unat i) < 2 ^ 31"
      using le(2) short in_take [OF i] by auto
  qed
  then show "write_column_names (column_names tile) (oid_range 0 ?n) out =
           Inr (out @ column_name_bytes tile)"
    by (simp add: column_name_bytes_def
        map_nth_oid_range [OF le(2), where f = "\<lambda>name. be32 (of_nat (length name)) @ name"])
qed

lemma SerializeHeaderTo_first:
  assumes rep: "header_representable INVALID_ID tile"
    and fresh: "column_header tile = None" "column_header_size tile = INVALID_ID"
  shows "SerializeHeaderTo INVALID_ID tile out =
           (Inr True, cache_header tile, out @ header_bytes tile)"
proof -
  let ?body = "header_body tile"
  let ?out3 = "WriteShort (WriteByte (WriteInt out 0xFFFFFFFF) 0x80) (ucast (column_count tile))"
  let ?out4 = "?out3 @ column_type_bytes tile"
  let ?out5 = "?out4 @ column_name_bytes tile"
  have t: "write_column_types (schema tile) (oid_range 0 (column_count tile)) ?out3 = Inr ?out4"
    by (rule header_loops(1) [OF rep])
  have n: "write_column_names (column_names tile) (oid_range 0 (column_count tile)) ?out4 =
             Inr ?out5"
    by (rule header_loops(2) [OF rep])
  have out5: "?out5 = out @ be32 0xFFFFFFFF @ ?body"
    by (simp add: WriteShort_def WriteByte_def WriteInt_def header_body_def)
  have pos: "Position ?out5 - Position out = 4 + length ?body"
    unfolding out5 by (simp add: Position_def)
  have size: "(of_nat (4 + length ?body) :: oid_t) - 4 = of_nat (length ?body)"
    by simp
  have at: "WriteIntAt ?out5 (Position out) v = out @ be32 v @ ?body" for v
    unfolding out5 by (simp add: WriteIntAt_def Position_def)
  have bound: "4 + length ?body < 2 ^ 32"
    using rep by (simp add: header_representable_def length_header_bytes)
  have un: "unat (of_nat (4 + length ?body) :: oid_t) = 4 + length ?body"
    using bound by (rule unat_of_nat_oid)
  have cache: "take (unat (of_nat (4 + length ?body) :: oid_t))
                 (drop (Position out) (out @ be32 v @ ?body)) = be32 v @ ?body" for v
    unfolding un by (simp add: Position_def)
  have res: "cache_header tile =
      tile\<lparr>column_header_size := of_nat (4 + length ?body),
           column_header := Some (be32 (of_nat (length ?body)) @ ?body)\<rparr>"
    unfolding cache_header_def header_bytes_def by (simp del: of_nat_add)
  show ?thesis
    unfolding res
    by (simp only: SerializeHeaderTo_def fresh option.case Let_def simp_thms if_False t n
        sum.case pos size at cache header_bytes_def)
qed

lemma SerializeHeaderTo_cached:
  assumes rep: "header_representable INVALID_ID tile"
  shows "SerializeHeaderTo INVALID_ID (cache_header tile) out =
           (Inr True, cache_header tile, out @ header_bytes tile)"
proof -
  have ne: "(of_nat (length (header_bytes tile)) :: oid_t) \<noteq> INVALID_ID"
    and bound: "length (header_bytes tile) < 2 ^ 32"
    using rep by (simp_all add: header_representable_def)
  have un: "unat (of_nat (length (header_bytes tile)) :: oid_t) = length (header_bytes tile)"
    using bound by (rule unat_of_nat_oid)
  show ?thesis
    unfolding SerializeHeaderTo_def
    by (simp add: cache_header_def ne un WriteBytes_def)
qed

lemma serialize_tuples_eq:
  "written \<le> n \<Longrightarrow>
   serialize_tuples ser s ts written n out =
     (written + of_nat (min (length ts) (unat n - unat written)),
      out @ concat (map (ser s) (take (unat n - unat written) ts)))"
proof (induction ts arbitrary: written out)
  case Nil
  then show ?case by simp
next
  case (Cons t ts)
  show ?case
  proof (cases "written < n")
    case False
    with Cons.prems have "written = n" by simp
    then show ?thesis by simp
  next
    case True
    then have u: "unat (written + 1) = Suc (unat written)" by unat_arith
    have le: "written + 1 \<le> n" using True by (rule inc_le)
    have lt: "unat written < unat n" using True by (simp add: word_less_nat_alt)
    define d where "d = unat n - Suc (unat written)"
    have d: "unat n - unat written = Suc d" "unat n - Suc (unat written) = d"
      using lt by (simp_all add: d_def)
    have w: "written + 1 + of_nat (min (length ts) d) =
             written + of_nat (min (Suc (length ts)) (Suc d))"
      by simp
    have "serialize_tuples ser s (t # ts) written n out =
          serialize_tuples ser s ts (written + 1) n (out @ ser s t)"
      using True by simp
    also have "\<dots> = (written + 1 + of_nat (min (length ts) d),
                      (out @ ser s t) @ concat (map (ser s) (take d ts)))"
      using Cons.IH [OF le, of "out @ ser s t"] unfolding u d .
    finally show ?thesis
      unfolding d w by simp
  qed
qed

lemma length_tile_tuples [simp]: "length (tile_tuples tile) = unat (num_tuple_slots tile)"
  by (simp add: tile_tuples_def oid_range_def)

lemma tile_tuples_cache [simp]: "tile_tuples (cache_header tile) = tile_tuples tile"
  by (simp add: tile_tuples_def cache_header_def tuple_at_def GetTupleLocation_def)

lemma of_nat_oid_eq_iff:
  assumes "k \<le> unat (n :: oid_t)"
  shows "(of_nat k :: oid_t) = n \<longleftrightarrow> k = unat n"
proof
  assume e: "(of_nat k :: oid_t) = n"
  have "k < 2 ^ 32" using assms unat_oid_bound [of n] by (rule le_less_trans)
  then have "unat (of_nat k :: oid_t) = k" by (rule unat_of_nat_oid)
  then show "k = unat n" unfolding e by (rule sym)
next
  assume "k = unat n"
  then show "(of_nat k :: oid_t) = n" by simp
qed

lemma SerializeTo_after_header:
  assumes hdr: "\<And>out0. SerializeHeaderTo INVALID_ID tile0 out0 =
                  (Inr True, cache_header tile, out0 @ header_bytes tile)"
  shows "SerializeTo INVALID_ID ser tile0 out n =
     (let written = (of_nat (min (unat (num_tuple_slots tile)) (unat n)) :: oid_t);
          body = header_bytes tile @ be32 n @
                 concat (map (ser (schema tile))
                   (take (unat n) (tile_tuples tile)));
          sz = (of_nat (length body) :: 32 word)
      in if written \<noteq> n
         then (Inl AssertionFailure, cache_header tile, out @ be32 0xFFFFFFFF @ body)
         else if \<not> 0 < sint sz
         then (Inl AssertionFailure, cache_header tile, out @ be32 0xFFFFFFFF @ body)
         else (Inr True, cache_header tile, out @ be32 sz @ body))"
proof -
  let ?out3 = "WriteInt (WriteInt out 0xFFFFFFFF @ header_bytes tile) n"
  let ?tb = "concat (map (ser (schema tile)) (take (unat n) (tile_tuples tile)))"
  have s: "schema (cache_header tile) = schema tile" by (simp add: cache_header_def)
  have st: "serialize_tuples ser (schema tile) (tile_tuples tile) 0 n ?out3 =
              (of_nat (min (unat (num_tuple_slots tile)) (unat n)), ?out3 @ ?tb)"
    using serialize_tuples_eq [of 0 n ser "schema tile" "tile_tuples tile" ?out3] by simp
  have o4: "?out3 @ ?tb = out @ be32 0xFFFFFFFF @ header_bytes tile @ be32 n @ ?tb"
    by (simp add: WriteInt_def)
  have len: "Position (?out3 @ ?tb) - Position out - 4 = length (header_bytes tile @ be32 n @ ?tb)"
    unfolding o4 by (simp add: Position_def)
  have at: "WriteIntAt (?out3 @ ?tb) (Position out) v =
              out @ be32 v @ header_bytes tile @ be32 n @ ?tb" for v
    unfolding o4 by (simp add: WriteIntAt_def Position_def)
  show ?thesis
    apply (simp only: SerializeTo_def Let_def hdr prod.case sum.case simp_thms if_True if_False)
    apply (simp only: s tile_tuples_cache st prod.case len at)
    apply (simp only: o4)
    done
qed






subsection \<open>Deserialization\<close>

lemma be32_roundtrip:
  "be32_decode (ucast (drop_bit 24 v)) (ucast (drop_bit 16 v)) (ucast (drop_bit 8 v)) (ucast v) = v"
proof (rule bit_word_eqI)
  fix n :: nat
  assume "n < LENGTH(32)"
  then have n: "n < 32" by simp
  consider "n < 8" | "8 \<le> n" "n < 16" | "16 \<le> n" "n < 24" | "24 \<le> n" by linarith
  then show "bit (be32_decode (ucast (drop_bit 24 v)) (ucast (drop_bit 16 v))
                (ucast (drop_bit 8 v)) (ucast v)) n = bit v n"
    using n by cases (auto simp: bit_simps)
qed

lemma be16_roundtrip:
  "be16_decode (ucast (drop_bit 8 v)) (ucast v) = v"
proof (rule bit_word_eqI)
  fix n :: nat
  assume "n < LENGTH(16)"
  then have n: "n < 16" by simp
  consider "n < 8" | "8 \<le> n" by linarith
  then show "bit (be16_decode (ucast (drop_bit 8 v)) (ucast v)) n = bit v n"
    using n by cases (auto simp: bit_simps)
qed

lemma ReadInt_be32 [simp]: "ReadInt (be32 v @ rest) = Inr (v, rest)"
  unfolding be32_def by (simp only: append_Cons append_Nil ReadInt.simps be32_roundtrip)

lemma ReadShort_be16 [simp]: "ReadShort (be16 v @ rest) = Inr (v, rest)"
  unfolding be16_def by (simp only: append_Cons append_Nil ReadShort.simps be16_roundtrip)

lemma read_column_types_eq: "read_column_types (length tys) (tys @ rest) = Inr (tys, rest)"
  by (induction tys) (simp_all add: ReadEnumInSingleByte_def)

lemma ReadTextString_eq:
  assumes "length name < 2 ^ 31"
  shows "ReadTextString (be32 (of_nat (length name)) @ name @ rest) = Inr (name, rest)"
  by (simp add: ReadTextString_def sint_of_nat_length [OF assms])

lemma read_column_names_eq:
  "\<forall>name \<in> set names. length name < 2 ^ 31 \<Longrightarrow>
   read_column_names (length names) (encode_names names @ rest) = Inr (names, rest)"
proof (induction names)
  case Nil
  then show ?case by (simp add: encode_names_def)
next
  case (Cons name names)
  then have "ReadTextString (be32 (of_nat (length name)) @ name @ encode_names names @ rest) =
             Inr (name, encode_names names @ rest)"
    by (intro ReadTextString_eq) simp
  moreover have "encode_names (name # names) @ rest =
                 be32 (of_nat (length name)) @ name @ encode_names names @ rest"
    by (simp add: encode_names_def)
  ultimately show ?case using Cons by simp
qed

lemma DeserializeTuplesFrom_header:
  assumes "length types = unat (scast short_count :: oid_t)"
    and "length names = unat (scast short_count :: oid_t)"
    and "\<forall>name \<in> set names. length name < 2 ^ 31"
    and "0 \<le> sint short_count"
  shows "DeserializeTuplesFrom des tile
           (encode_header rowstart status short_count types names @ rest) =
         (if (scast short_count :: oid_t) = 0 then (Inl AssertionFailure, tile, rest)
          else if (scast short_count :: oid_t) \<noteq> GetColumnCount (schema tile)
          then (Inl SerializationException, tile, rest)
          else DeserializeTuplesFromWithoutHeader des tile rest)"
proof (cases "(scast short_count :: oid_t) = 0")
  case True
  with assms have "types = []" "names = []" by simp_all
  then show ?thesis
    using True
    by (simp add: DeserializeTuplesFrom_def encode_header_def encode_names_def)
next
  case False
  then have pos: "0 < (scast short_count :: oid_t)" by (simp add: word_greater_zero_iff)
  have t: "read_column_types (unat (scast short_count :: oid_t))
             (types @ encode_names names @ rest) = Inr (types, encode_names names @ rest)"
    using read_column_types_eq [of types] assms(1) by simp
  have n: "read_column_names (unat (scast short_count :: oid_t)) (encode_names names @ rest) =
             Inr (names, rest)"
    using read_column_names_eq [OF assms(3)] assms(2) by simp
  have nonneg: "\<not> sint short_count < 0" using assms(4) by simp
  show ?thesis
    using False pos nonneg
    by (simp add: DeserializeTuplesFrom_def encode_header_def t n)
qed

text \<open>
  A column count with the sign bit set is outside the cases above: on the seven bytes of
  a header that announces the count \<open>-1\<close> the call passes the assertion and ends at the
  array on the stack.
\<close>

lemma DeserializeTuplesFrom_negative_count:
  "DeserializeTuplesFrom raw_deserializer (example_tile 2) [0, 0, 0, 3, 128, 255, 255] =
     (Inl StackOverflow, example_tile 2, [])"
proof -
  have n: "sint (65535 :: 16 word) < 0" by simp
  have p: "(0 :: oid_t) < - 1" by (simp add: word_greater_zero_iff)
  show ?thesis by (simp add: DeserializeTuplesFrom_def Let_def n p)
qed

lemma slot_after_put:
  fixes d :: "'a list"
  assumes len: "length d = N * w" and k: "k < N" and j: "j < N" and b: "length b = w"
  shows "take w (drop (j * w) (take (k * w) d @ b @ drop (k * w + w) d)) =
           (if j = k then b else take w (drop (j * w) d))"
proof -
  have kN: "k * w + w \<le> N * w"
    using k by (metis Suc_leI mult_Suc mult_le_mono1 add.commute)
  define P where "P = take (k * w) d"
  define R where "R = drop (k * w + w) d"
  have lp: "length P = k * w"
    using kN len by (simp add: P_def)
  consider "j = k" | "j < k" | "k < j" by linarith
  then have "take w (drop (j * w) (P @ b @ R)) = (if j = k then b else take w (drop (j * w) d))"
  proof cases
    case 1
    then show ?thesis by (simp add: lp b)
  next
    case 2
    then have jk: "j * w + w \<le> k * w"
      by (metis Suc_leI mult_Suc mult_le_mono1 add.commute)
    then have "take w (drop (j * w) (P @ b @ R)) = take w (drop (j * w) P)"
      using lp by simp
    also have "\<dots> = take w (take (k * w - j * w) (drop (j * w) d))"
      by (simp add: P_def drop_take)
    also have "\<dots> = take w (drop (j * w) d)"
      using jk by (simp add: min_def)
    finally show ?thesis using 2 by simp
  next
    case 3
    then have kj: "k * w + w \<le> j * w"
      by (metis Suc_leI mult_Suc mult_le_mono1 add.commute)
    have kj': "k * w \<le> j * w" using 3 by simp
    have "drop (j * w) (P @ b @ R) = drop (j * w - k * w - w) R"
      using lp b kj kj' by simp
    also have "\<dots> = drop (j * w) d"
      using kj by (simp add: R_def)
    finally show ?thesis using 3 by simp
  qed
  then show ?thesis by (simp only: P_def R_def)
qed

lemma length_after_put:
  fixes d :: "'a list"
  assumes len: "length d = N * w" and k: "k < N" and b: "length b = w"
  shows "length (take (k * w) d @ b @ drop (k * w + w) d) = N * w"
proof -
  have kN: "k * w + w \<le> N * w"
    using k by (metis Suc_leI mult_Suc mult_le_mono1 add.commute)
  then show ?thesis using len b by simp
qed

lemma write_tuple_fields [simp]:
  "schema (write_tuple tile i bytes) = schema tile"
  "tuple_length (write_tuple tile i bytes) = tuple_length tile"
  "num_tuple_slots (write_tuple tile i bytes) = num_tuple_slots tile"
  by (simp_all add: write_tuple_def Let_def)

lemma write_tuple_whole:
  assumes "length bytes = tuple_length tile"
  shows "write_tuple tile i bytes =
     tile\<lparr>data := take (unat i * tuple_length tile) (data tile) @ bytes @
                    drop (unat i * tuple_length tile + tuple_length tile) (data tile)\<rparr>"
  using assms by (simp add: write_tuple_def Let_def GetTupleLocation_def)

lemma write_tuple_wf:
  assumes "tile_wf tile" and "i < num_tuple_slots tile" and "length bytes = tuple_length tile"
  shows "tile_wf (write_tuple tile i bytes)"
proof -
  have i: "unat i < unat (num_tuple_slots tile)" using assms(2) by (simp add: word_less_nat_alt)
  have "length (take (unat i * tuple_length tile) (data tile) @ bytes @
                drop (unat i * tuple_length tile + tuple_length tile) (data tile)) =
        unat (num_tuple_slots tile) * tuple_length tile"
    by (rule length_after_put) (use assms i in \<open>simp_all add: tile_wf_def\<close>)
  then show ?thesis
    unfolding write_tuple_whole [OF assms(3)] tile_wf_def by simp
qed

lemma tuple_at_write_tuple:
  assumes "tile_wf tile" and "i < num_tuple_slots tile" and "j < num_tuple_slots tile"
    and "length bytes = tuple_length tile"
  shows "tuple_at (write_tuple tile i bytes) j = (if j = i then bytes else tuple_at tile j)"
proof -
  have i: "unat i < unat (num_tuple_slots tile)" using assms(2) by (simp add: word_less_nat_alt)
  have j: "unat j < unat (num_tuple_slots tile)" using assms(3) by (simp add: word_less_nat_alt)
  have eq: "(unat j = unat i) = (j = i)" by (rule word_unat_eq_iff [symmetric])
  have put: "take (tuple_length tile) (drop (unat j * tuple_length tile)
          (take (unat i * tuple_length tile) (data tile) @ bytes @
           drop (unat i * tuple_length tile + tuple_length tile) (data tile))) =
        (if unat j = unat i then bytes
         else take (tuple_length tile) (drop (unat j * tuple_length tile) (data tile)))"
    by (rule slot_after_put) (use assms i j in \<open>simp_all add: tile_wf_def\<close>)
  have "tuple_at (write_tuple tile i bytes) j =
        take (tuple_length tile) (drop (unat j * tuple_length tile)
          (take (unat i * tuple_length tile) (data tile) @ bytes @
           drop (unat i * tuple_length tile + tuple_length tile) (data tile)))"
    unfolding write_tuple_whole [OF assms(4)] tuple_at_def GetTupleLocation_def by simp
  also note put
  finally show ?thesis
    unfolding eq tuple_at_def GetTupleLocation_def .
qed

lemma fills_slot_write_tuple [simp]:
  "fills_slot des (write_tuple tile i bytes) = fills_slot des tile"
  by (simp add: fills_slot_def)

lemma length_oid_range [simp]: "length (oid_range i n) = unat n - unat i"
  by (simp add: oid_range_def)

lemma deserialize_tuples_success:
  "deserialize_tuples des tile slots inp = (Inr u, tile', rest) \<Longrightarrow>
   \<exists>payloads. read_tuples des (schema tile) (length slots) inp = Inr (payloads, rest)"
proof (induction slots arbitrary: tile inp)
  case Nil
  then show ?case by simp
next
  case (Cons i slots)
  from Cons.prems obtain bytes inp' where d: "des (schema tile) inp = Inr (bytes, inp')"
    by (cases "des (schema tile) inp") auto
  with Cons.prems have "deserialize_tuples des (write_tuple tile i bytes) slots inp' =
                          (Inr u, tile', rest)"
    by simp
  from Cons.IH [OF this] obtain payloads
    where "read_tuples des (schema tile) (length slots) inp' = Inr (payloads, rest)"
    by auto
  then show ?case using d by simp
qed

lemma deserialize_tuples_loaded:
  assumes "tile_wf tile" and "fills_slot des tile" and "i \<le> n" and "n \<le> num_tuple_slots tile"
    and "read_tuples des (schema tile) (unat n - unat i) inp = Inr (payloads, rest)"
  shows "\<exists>tile'. deserialize_tuples des tile (oid_range i n) inp = (Inr (), tile', rest) \<and>
           tile_wf tile' \<and> schema tile' = schema tile \<and>
           num_tuple_slots tile' = num_tuple_slots tile \<and>
           tuple_length tile' = tuple_length tile \<and>
           (\<forall>j. j < num_tuple_slots tile \<longrightarrow>
                tuple_at tile' j =
                  (if i \<le> j \<and> j < n then payloads ! (unat j - unat i) else tuple_at tile j))"
  using assms
proof (induction "unat n - unat i" arbitrary: i tile inp payloads)
  case 0
  then have "\<not> i < n" by (simp add: word_less_nat_alt)
  moreover from this 0 have "i = n" by simp
  ultimately show ?case using 0 by (auto simp: oid_range_Nil)
next
  case (Suc d)
  then have lt: "i < n" by (simp add: word_less_nat_alt)
  then have u: "unat (i + 1) = Suc (unat i)" by unat_arith
  have le: "i + 1 \<le> n" using lt by (rule inc_le)
  have d: "d = unat n - unat (i + 1)" using Suc(2) u by simp
  have cnt: "unat n - unat i = Suc d" using Suc(2) by simp
  from Suc.prems(5) obtain bytes inp' ps where
    b: "des (schema tile) inp = Inr (bytes, inp')" and
    ps: "read_tuples des (schema tile) d inp' = Inr (ps, rest)" and
    pl: "payloads = bytes # ps"
    unfolding cnt by (auto split: sum.splits)
  have lb: "length bytes = tuple_length tile"
    using Suc.prems(2) b by (auto simp: fills_slot_def)
  have islot: "i < num_tuple_slots tile" using lt Suc.prems(4) by simp
  let ?t1 = "write_tuple tile i bytes"
  have wf1: "tile_wf ?t1" by (rule write_tuple_wf [OF Suc.prems(1) islot lb])
  have "\<exists>tile'. deserialize_tuples des ?t1 (oid_range (i + 1) n) inp' = (Inr (), tile', rest) \<and>
           tile_wf tile' \<and> schema tile' = schema ?t1 \<and>
           num_tuple_slots tile' = num_tuple_slots ?t1 \<and>
           tuple_length tile' = tuple_length ?t1 \<and>
           (\<forall>j. j < num_tuple_slots ?t1 \<longrightarrow>
                tuple_at tile' j =
                  (if i + 1 \<le> j \<and> j < n then ps ! (unat j - unat (i + 1))
                   else tuple_at ?t1 j))"
    by (rule Suc(1) [OF d wf1]) (use Suc.prems le ps d in simp_all)
  then obtain tile' where
    run: "deserialize_tuples des ?t1 (oid_range (i + 1) n) inp' = (Inr (), tile', rest)" and
    keep: "tile_wf tile'" "schema tile' = schema tile"
      "num_tuple_slots tile' = num_tuple_slots tile" "tuple_length tile' = tuple_length tile" and
    slots: "\<And>j. j < num_tuple_slots tile \<Longrightarrow>
                tuple_at tile' j =
                  (if i + 1 \<le> j \<and> j < n then ps ! (unat j - unat (i + 1))
                   else tuple_at ?t1 j)"
    by auto
  have "deserialize_tuples des tile (oid_range i n) inp = (Inr (), tile', rest)"
    by (simp add: oid_range_Cons [OF lt] b run)
  moreover have "tuple_at tile' j =
                  (if i \<le> j \<and> j < n then payloads ! (unat j - unat i) else tuple_at tile j)"
    if j: "j < num_tuple_slots tile" for j
  proof -
    have w: "tuple_at ?t1 j = (if j = i then bytes else tuple_at tile j)"
      by (rule tuple_at_write_tuple [OF Suc.prems(1) islot j lb])
    have s: "i + 1 \<le> j \<longleftrightarrow> i < j"
      by (simp add: word_le_nat_alt word_less_nat_alt u Suc_le_eq)
    show ?thesis
    proof (cases "i < j")
      case True
      then have "unat i < unat j" by (simp add: word_less_nat_alt)
      then have "unat j - unat i = Suc (unat j - Suc (unat i))" by simp
      then have "payloads ! (unat j - unat i) = ps ! (unat j - unat (i + 1))"
        by (simp add: pl u)
      then show ?thesis using True slots [OF j] w s by auto
    next
      case False
      then show ?thesis using slots [OF j] w s pl lt by auto
    qed
  qed
  ultimately show ?case using keep by blast
qed

lemma DeserializeTuplesFromWithoutHeader_loaded:
  assumes wf: "tile_wf tile" and fills: "fills_slot des tile"
    and run: "DeserializeTuplesFromWithoutHeader des tile inp = (Inr (), tile', rest')"
  shows "\<exists>n rest0 payloads.
           ReadInt inp = Inr (n, rest0) \<and> 0 < n \<and> n \<le> num_tuple_slots tile \<and>
           read_tuples des (schema tile) (unat n) rest0 = Inr (payloads, rest') \<and>
           (\<forall>j. j < num_tuple_slots tile \<longrightarrow>
                tuple_at tile' j = (if j < n then payloads ! unat j else tuple_at tile j))"
proof -
  from run obtain n rest0 where r: "ReadInt inp = Inr (n, rest0)"
    by (cases "ReadInt inp") (auto simp: DeserializeTuplesFromWithoutHeader_def)
  from run r have pos: "0 < n" and le: "n \<le> num_tuple_slots tile"
    and loop: "deserialize_tuples des tile (oid_range 0 n) rest0 = (Inr (), tile', rest')"
    by (auto simp: DeserializeTuplesFromWithoutHeader_def split: if_splits)
  from deserialize_tuples_success [OF loop] obtain payloads
    where p: "read_tuples des (schema tile) (unat n) rest0 = Inr (payloads, rest')"
    by auto
  have "\<exists>t. deserialize_tuples des tile (oid_range 0 n) rest0 = (Inr (), t, rest') \<and>
           tile_wf t \<and> schema t = schema tile \<and>
           num_tuple_slots t = num_tuple_slots tile \<and>
           tuple_length t = tuple_length tile \<and>
           (\<forall>j. j < num_tuple_slots tile \<longrightarrow>
                tuple_at t j =
                  (if 0 \<le> j \<and> j < n then payloads ! (unat j - unat (0 :: oid_t))
                   else tuple_at tile j))"
    by (rule deserialize_tuples_loaded [OF wf fills _ le]) (use p in simp_all)
  with loop have "\<forall>j. j < num_tuple_slots tile \<longrightarrow>
                tuple_at tile' j = (if j < n then payloads ! unat j else tuple_at tile j)"
    by auto
  with r pos le p show ?thesis by blast
qed

text \<open>
  C6, as stated, fails: a header whose column count is zero differs from the schema's
  one column, and the call ends in the failed assertion \<open>column_count > 0\<close>, not in a
  serialization error.
\<close>

theorem deserialize_zero_count_counterexample:
  "DeserializeTuplesFrom raw_deserializer (example_tile 2) [0, 0, 0, 3, 128, 0, 0] =
     (Inl AssertionFailure, example_tile 2, []) \<and>
   (scast (be16_decode 0 0) :: oid_t) \<noteq> GetColumnCount (schema (example_tile 2))"
  by (simp add: DeserializeTuplesFrom_def GetColumnCount_def example_tile_def example_schema_def)

text \<open>
  C6, amended. Given a complete wire header (any row start, status, types and names)
  whose column count, a signed 16-bit integer, is not negative: a zero column count fails
  the assertion; a positive column count that differs from the schema's raises the
  serialization error and returns the tile as it was; an equal column count leads to
  \<open>DeserializeTuplesFromWithoutHeader\<close> on the rest of the input, whatever the types and
  names are. When that succeeds on a well-formed tile, it has read a tuple
  count \<open>n\<close> and \<open>n\<close> payloads, slot \<open>j < n\<close> holds payload \<open>j\<close>, and the other slots are
  unchanged.
\<close>

theorem deserialize_validates_column_count:
  assumes "length types = unat (scast short_count :: oid_t)"
    and "length names = unat (scast short_count :: oid_t)"
    and "\<forall>name \<in> set names. length name < 2 ^ 31"
    and "0 \<le> sint short_count"
  shows "DeserializeTuplesFrom des tile
           (encode_header rowstart status short_count types names @ rest) =
         (if (scast short_count :: oid_t) = 0 then (Inl AssertionFailure, tile, rest)
          else if (scast short_count :: oid_t) \<noteq> GetColumnCount (schema tile)
          then (Inl SerializationException, tile, rest)
          else DeserializeTuplesFromWithoutHeader des tile rest) \<and>
         (tile_wf tile \<longrightarrow> fills_slot des tile \<longrightarrow>
          DeserializeTuplesFromWithoutHeader des tile rest = (Inr (), tile', rest') \<longrightarrow>
          (\<exists>n rest0 payloads.
             ReadInt rest = Inr (n, rest0) \<and> 0 < n \<and> n \<le> num_tuple_slots tile \<and>
             read_tuples des (schema tile) (unat n) rest0 = Inr (payloads, rest') \<and>
             (\<forall>j. j < num_tuple_slots tile \<longrightarrow>
                  tuple_at tile' j = (if j < n then payloads ! unat j else tuple_at tile j))))"
proof
  show "DeserializeTuplesFrom des tile
           (encode_header rowstart status short_count types names @ rest) =
         (if (scast short_count :: oid_t) = 0 then (Inl AssertionFailure, tile, rest)
          else if (scast short_count :: oid_t) \<noteq> GetColumnCount (schema tile)
          then (Inl SerializationException, tile, rest)
          else DeserializeTuplesFromWithoutHeader des tile rest)"
    by (rule DeserializeTuplesFrom_header [OF assms])
  show "tile_wf tile \<longrightarrow> fills_slot des tile \<longrightarrow>
          DeserializeTuplesFromWithoutHeader des tile rest = (Inr (), tile', rest') \<longrightarrow>
          (\<exists>n rest0 payloads.
             ReadInt rest = Inr (n, rest0) \<and> 0 < n \<and> n \<le> num_tuple_slots tile \<and>
             read_tuples des (schema tile) (unat n) rest0 = Inr (payloads, rest') \<and>
             (\<forall>j. j < num_tuple_slots tile \<longrightarrow>
                  tuple_at tile' j = (if j < n then payloads ! unat j else tuple_at tile j)))"
    using DeserializeTuplesFromWithoutHeader_loaded by blast
qed

lemma example_tile_wf: "tile_wf (example_tile n)"
  by (simp add: tile_wf_def example_tile_def)

lemma raw_fills_slot: "fills_slot raw_deserializer (example_tile n)"
  by (auto simp: fills_slot_def raw_deserializer_def example_tile_def example_schema_def
      split: if_splits)

lemma example_without_header:
  "DeserializeTuplesFromWithoutHeader raw_deserializer (example_tile 2)
     [0, 0, 0, 2, 0, 0, 0, 10, 0, 0, 0, 20] = (Inr (), example_loaded_tile, [])"
proof -
  have u: "[0..<2] = [0, 1 :: nat]" by code_simp
  have r: "oid_range 0 2 = [0, 1]"
    by (simp add: oid_range_def u)
  have c: "replicate 8 (0 :: byte) = [0, 0, 0, 0, 0, 0, 0, 0]" by code_simp
  show ?thesis
    by (simp add: DeserializeTuplesFromWithoutHeader_def r raw_deserializer_def
        example_tile_def example_schema_def write_tuple_def GetTupleLocation_def Let_def
        example_loaded_tile_def c)
qed

theorem deserialize_validates_column_count_witness:
  "length [5 :: byte] = unat (scast (1 :: 16 word) :: oid_t) \<and>
   length [[97 :: byte]] = unat (scast (1 :: 16 word) :: oid_t) \<and>
   0 \<le> sint (1 :: 16 word) \<and> 0 \<le> sint (2 :: 16 word) \<and>
   tile_wf (example_tile 2) \<and>
   DeserializeTuplesFrom raw_deserializer (example_tile 2)
     (encode_header 9 128 1 [5] [[97]] @ [0, 0, 0, 2, 0, 0, 0, 10, 0, 0, 0, 20]) =
     (Inr (), example_loaded_tile, []) \<and>
   tuple_at example_loaded_tile 0 = [0, 0, 0, 10] \<and>
   tuple_at example_loaded_tile 1 = [0, 0, 0, 20] \<and>
   length [5 :: byte, 6] = unat (scast (2 :: 16 word) :: oid_t) \<and>
   DeserializeTuplesFrom raw_deserializer (example_tile 2)
     (encode_header 12 128 2 [5, 6] [[97], [98]] @ [0, 0, 0, 2, 0, 0, 0, 10, 0, 0, 0, 20]) =
     (Inl SerializationException, example_tile 2, [0, 0, 0, 2, 0, 0, 0, 10, 0, 0, 0, 20])"
proof -
  have a: "length [5 :: byte] = unat (scast (1 :: 16 word) :: oid_t)"
    "length [[97 :: byte]] = unat (scast (1 :: 16 word) :: oid_t)"
    "\<forall>name \<in> set [[97 :: byte]]. length name < 2 ^ 31"
    "0 \<le> sint (1 :: 16 word)"
    by simp_all
  have b: "length [5 :: byte, 6] = unat (scast (2 :: 16 word) :: oid_t)"
    "length [[97 :: byte], [98]] = unat (scast (2 :: 16 word) :: oid_t)"
    "\<forall>name \<in> set [[97 :: byte], [98]]. length name < 2 ^ 31"
    "0 \<le> sint (2 :: 16 word)"
    by simp_all
  have cc: "GetColumnCount (schema (example_tile 2)) = 1"
    by (simp add: GetColumnCount_def example_tile_def example_schema_def)
  have t: "tuple_at example_loaded_tile 0 = [0, 0, 0, 10]"
    "tuple_at example_loaded_tile 1 = [0, 0, 0, 20]"
    by (simp_all add: tuple_at_def example_loaded_tile_def example_tile_def GetTupleLocation_def)
  note w = deserialize_validates_column_count [OF a, of raw_deserializer "example_tile 2" 9 128
      "[0, 0, 0, 2, 0, 0, 0, 10, 0, 0, 0, 20]" example_loaded_tile "[]"]
  note m = deserialize_validates_column_count [OF b, of raw_deserializer "example_tile 2" 12 128
      "[0, 0, 0, 2, 0, 0, 0, 10, 0, 0, 0, 20]" example_loaded_tile "[]"]
  show ?thesis
    using w m a(1,2,4) b(1,4) t example_tile_wf [of 2] raw_fills_slot [of 2]
    by (simp add: cc example_without_header)
qed

subsection \<open>Serialization followed by deserialization\<close>

lemma SerializeHeaderTo_ok:
  assumes "header_representable INVALID_ID tile" and "header_cache_ok INVALID_ID tile"
  shows "SerializeHeaderTo INVALID_ID tile out =
           (Inr True, cache_header tile, out @ header_bytes tile)"
proof -
  show ?thesis
  proof (cases "column_header tile")
    case None
    with assms(2) have "column_header_size tile = INVALID_ID"
      by (simp add: header_cache_ok_def)
    with None show ?thesis by (intro SerializeHeaderTo_first [OF assms(1)])
  next
    case (Some h)
    with assms(2) have "cache_header tile = tile"
      by (simp add: header_cache_ok_def cache_header_def)
    with SerializeHeaderTo_cached [OF assms(1), of out] show ?thesis by simp
  qed
qed

lemma header_bytes_encode:
  "header_bytes tile =
     encode_header (of_nat (length (header_body tile))) 0x80 (ucast (column_count tile))
       (column_type_bytes tile) (take (unat (column_count tile)) (column_names tile))"
  by (simp add: header_bytes_def header_body_def encode_header_def encode_names_def
      column_name_bytes_def)

lemma scast_ucast_small:
  fixes c :: oid_t
  assumes "unat c < 2 ^ 15"
  shows "(scast (ucast c :: 16 word) :: oid_t) = c"
proof (rule bit_word_eqI)
  fix i :: nat
  assume "i < LENGTH(32)"
  then have i: "i < 32" by simp
  have "take_bit 15 (unat c) = unat c"
    using assms by (simp add: take_bit_nat_eq_self)
  then have "unat (take_bit 15 c) = unat c"
    by (simp add: unsigned_take_bit_eq)
  then have tb: "take_bit 15 c = c"
    by (simp add: word_unat_eq_iff)
  have hi: "\<not> bit c k" if "15 \<le> k" for k
  proof -
    have "bit c k = bit (take_bit 15 c) k" by (simp only: tb)
    then show ?thesis using that by (simp add: bit_take_bit_iff)
  qed
  show "bit (scast (ucast c :: 16 word) :: oid_t) i = bit c i"
    using i hi [of i] hi [of 15] by (auto simp: bit_simps min_def)
qed

lemma sint_ucast_small:
  fixes c :: oid_t
  assumes "unat c < 2 ^ 15"
  shows "0 \<le> sint (ucast c :: 16 word)"
proof -
  have "take_bit 15 (unat c) = unat c"
    using assms by (simp add: take_bit_nat_eq_self)
  then have "unat (take_bit 15 c) = unat c"
    by (simp add: unsigned_take_bit_eq)
  then have tb: "take_bit 15 c = c"
    by (simp add: word_unat_eq_iff)
  have "bit c 15 = bit (take_bit 15 c) 15" by (simp only: tb)
  then have "\<not> bit c 15" by (simp add: bit_take_bit_iff)
  then have "\<not> bit (ucast c :: 16 word) 15" by (simp add: bit_simps)
  then have "\<not> sint (ucast c :: 16 word) < 0"
    using bit_last_iff [of "ucast c :: 16 word"] by simp
  then show ?thesis by simp
qed

lemma read_tuples_round_trip:
  assumes "codec_round_trip ser des s w tuple_equal" and "\<forall>t \<in> set ts. length t = w"
  shows "\<exists>ps. read_tuples des s (length ts) (concat (map (ser s) ts) @ rest) = Inr (ps, rest) \<and>
              list_all2 tuple_equal ts ps"
  using assms(2)
proof (induction ts)
  case Nil
  then show ?case by simp
next
  case (Cons t ts)
  then have "length t = w" by simp
  with assms(1) obtain t' where
    t': "des s (ser s t @ concat (map (ser s) ts) @ rest) =
           Inr (t', concat (map (ser s) ts) @ rest)" "tuple_equal t t'"
    unfolding codec_round_trip_def by blast
  from Cons obtain ps where
    ps: "read_tuples des s (length ts) (concat (map (ser s) ts) @ rest) = Inr (ps, rest)"
      "list_all2 tuple_equal ts ps"
    by auto
  have "read_tuples des s (length (t # ts)) (concat (map (ser s) (t # ts)) @ rest) =
          Inr (t' # ps, rest)"
    by (simp add: t'(1) ps(1))
  with t'(2) ps(2) show ?case by auto
qed

lemma nth_oid_range: "k < unat n \<Longrightarrow> oid_range 0 n ! k = of_nat k"
  by (simp add: oid_range_def)

lemma nth_tile_tuples:
  assumes "j < num_tuple_slots tile"
  shows "tile_tuples tile ! unat j = tuple_at tile j"
proof -
  have "unat j < unat (num_tuple_slots tile)" using assms by (simp add: word_less_nat_alt)
  then show ?thesis by (simp add: tile_tuples_def nth_oid_range)
qed

lemma length_tuple_at:
  assumes "tile_wf tile" and "j < num_tuple_slots tile"
  shows "length (tuple_at tile j) = tuple_length tile"
proof -
  have "unat j < unat (num_tuple_slots tile)" using assms(2) by (simp add: word_less_nat_alt)
  then have "unat j * tuple_length tile + tuple_length tile \<le>
             unat (num_tuple_slots tile) * tuple_length tile"
    by (metis Suc_leI mult_Suc mult_le_mono1 add.commute)
  then show ?thesis
    using assms(1) by (simp add: tuple_at_def tile_wf_def GetTupleLocation_def)
qed

lemma tile_tuples_lengths:
  assumes "tile_wf tile"
  shows "\<forall>t \<in> set (tile_tuples tile). length t = tuple_length tile"
proof
  fix t assume "t \<in> set (tile_tuples tile)"
  then obtain j where j: "j \<in> set (oid_range 0 (num_tuple_slots tile))" "t = tuple_at tile j"
    by (auto simp: tile_tuples_def)
  then have "j < num_tuple_slots tile" by (simp add: set_oid_range)
  then show "length t = tuple_length tile" using j(2) length_tuple_at [OF assms] by simp
qed

lemma SerializeTo_ok:
  assumes rep: "header_representable INVALID_ID tile"
    and cache: "header_cache_ok INVALID_ID tile"
    and n: "n \<le> num_tuple_slots tile"
    and size: "length (wire_payload ser tile n) < 2 ^ 31"
  shows "SerializeTo INVALID_ID ser tile out0 n =
           (Inr True, cache_header tile,
            out0 @ be32 (of_nat (length (wire_payload ser tile n))) @ wire_payload ser tile n)"
proof -
  have le: "unat n \<le> unat (num_tuple_slots tile)" using n by (simp add: word_le_nat_alt)
  have written: "(of_nat (min (unat (num_tuple_slots tile)) (unat n)) :: oid_t) = n"
    using le by (simp add: min_def)
  have body: "header_bytes tile @ be32 n @
                concat (map (ser (schema tile)) (take (unat n) (tile_tuples tile))) =
              wire_payload ser tile n"
    by (simp add: wire_payload_def tuple_bytes_def)
  have "0 < length (wire_payload ser tile n)"
    by (simp add: wire_payload_def header_bytes_def)
  then have pos: "0 < sint (of_nat (length (wire_payload ser tile n)) :: 32 word)"
    by (simp add: sint_of_nat_length [OF size])
  show ?thesis
    unfolding SerializeTo_after_header [of INVALID_ID tile tile,
        OF SerializeHeaderTo_ok [OF rep cache]] Let_def body written
    using pos by simp
qed

lemma DeserializeTuplesFrom_payload:
  assumes rep: "header_representable INVALID_ID tile"
    and wf: "tile_wf tile"
    and cols: "column_count tile = GetColumnCount (schema tile)" "column_count tile \<noteq> 0"
      "unat (column_count tile) < 2 ^ 15"
    and n: "0 < n" "n \<le> num_tuple_slots tile"
    and fresh: "tile_wf fresh" "schema fresh = schema tile"
      "tuple_length fresh = tuple_length tile" "n \<le> num_tuple_slots fresh"
    and codec: "fills_slot des fresh"
      "codec_round_trip ser des (schema tile) (tuple_length tile) tuple_equal"
  shows "\<exists>loaded. DeserializeTuplesFrom des fresh (wire_payload ser tile n @ rest) =
                    (Inr (), loaded, rest) \<and>
           (\<forall>j. j < n \<longrightarrow> tuple_equal (tuple_at tile j) (tuple_at loaded j))"
proof -
  let ?cc = "column_count tile"
  let ?ts = "take (unat n) (tile_tuples tile)"
  have le: "unat n \<le> unat (num_tuple_slots tile)" using n(2) by (simp add: word_le_nat_alt)
  have sc: "(scast (ucast ?cc :: 16 word) :: oid_t) = ?cc"
    by (rule scast_ucast_small [OF cols(3)])
  have rp: "unat ?cc \<le> length (schema_columns (schema tile))"
    "unat ?cc \<le> length (column_names tile)"
    "\<forall>name \<in> set (take (unat ?cc) (column_names tile)). length name < 2 ^ 31"
    using rep by (simp_all add: header_representable_def)
  have lt: "length (column_type_bytes tile) = unat (scast (ucast ?cc :: 16 word) :: oid_t)"
    unfolding sc using rp(1) by (simp add: column_type_bytes_def)
  have ln: "length (take (unat ?cc) (column_names tile)) =
            unat (scast (ucast ?cc :: 16 word) :: oid_t)"
    unfolding sc using rp(2) by simp
  have payload: "wire_payload ser tile n @ rest =
      encode_header (of_nat (length (header_body tile))) 0x80 (ucast ?cc)
        (column_type_bytes tile) (take (unat ?cc) (column_names tile)) @
      (be32 n @ concat (map (ser (schema tile)) ?ts) @ rest)"
    by (simp add: wire_payload_def tuple_bytes_def header_bytes_encode)
  have hdr: "DeserializeTuplesFrom des fresh (wire_payload ser tile n @ rest) =
             DeserializeTuplesFromWithoutHeader des fresh
               (be32 n @ concat (map (ser (schema tile)) ?ts) @ rest)"
    unfolding payload
      DeserializeTuplesFrom_header [OF lt ln rp(3) sint_ucast_small [OF cols(3)]] sc
    using cols(1,2) fresh(2) by simp
  have lts: "length ?ts = unat n" using le by simp
  have "\<forall>t \<in> set ?ts. length t = tuple_length tile"
    using tile_tuples_lengths [OF wf] by (auto dest: in_set_takeD)
  from read_tuples_round_trip [OF codec(2) this, of rest] obtain ps where
    ps: "read_tuples des (schema tile) (unat n) (concat (map (ser (schema tile)) ?ts) @ rest) =
           Inr (ps, rest)" "list_all2 tuple_equal ?ts ps"
    unfolding lts by auto
  have "\<exists>loaded. deserialize_tuples des fresh (oid_range 0 n)
                    (concat (map (ser (schema tile)) ?ts) @ rest) = (Inr (), loaded, rest) \<and>
           tile_wf loaded \<and> schema loaded = schema fresh \<and>
           num_tuple_slots loaded = num_tuple_slots fresh \<and>
           tuple_length loaded = tuple_length fresh \<and>
           (\<forall>j. j < num_tuple_slots fresh \<longrightarrow>
                tuple_at loaded j =
                  (if 0 \<le> j \<and> j < n then ps ! (unat j - unat (0 :: oid_t))
                   else tuple_at fresh j))"
    by (rule deserialize_tuples_loaded [OF fresh(1) codec(1) _ fresh(4)])
       (use ps(1) fresh(2) in simp_all)
  then obtain loaded where
    run: "deserialize_tuples des fresh (oid_range 0 n)
            (concat (map (ser (schema tile)) ?ts) @ rest) = (Inr (), loaded, rest)" and
    slots: "\<And>j. j < n \<Longrightarrow> tuple_at loaded j = ps ! unat j"
    using fresh(4) by fastforce
  have "DeserializeTuplesFrom des fresh (wire_payload ser tile n @ rest) = (Inr (), loaded, rest)"
    unfolding hdr using n(1) fresh(4) run
    by (simp add: DeserializeTuplesFromWithoutHeader_def)
  moreover have "tuple_equal (tuple_at tile j) (tuple_at loaded j)" if j: "j < n" for j
  proof -
    have uj: "unat j < unat n" using j by (simp add: word_less_nat_alt)
    have jN: "j < num_tuple_slots tile" using j n(2) by simp
    have "unat j < length ?ts" using uj lts by (simp only:)
    with ps(2) have "tuple_equal (?ts ! unat j) (ps ! unat j)"
      by (rule list_all2_nthD)
    moreover have "?ts ! unat j = tuple_at tile j"
      using uj by (simp add: nth_tile_tuples [OF jN])
    ultimately show ?thesis using slots [OF j] by simp
  qed
  ultimately show ?thesis by blast
qed

lemma example_loaded_header_bytes:
  "header_bytes example_loaded_tile = [0, 0, 0, 9, 128, 0, 1, 5, 0, 0, 0, 1, 97]"
  by (simp add: header_bytes_def header_body_def column_type_bytes_def column_name_bytes_def
      example_loaded_tile_def example_tile_def example_schema_def be32_def be16_def)

lemma example_loaded_representable: "header_representable 0xFFFFFFFF example_loaded_tile"
  unfolding header_representable_def example_loaded_header_bytes
  by (simp add: example_loaded_tile_def example_tile_def example_schema_def)

lemma example_loaded_cache_ok: "header_cache_ok 0xFFFFFFFF example_loaded_tile"
  by (simp add: header_cache_ok_def example_loaded_tile_def example_tile_def)

lemma example_loaded_wf: "tile_wf example_loaded_tile"
  by (simp add: tile_wf_def example_loaded_tile_def example_tile_def)

lemma example_loaded_tuples:
  "tile_tuples example_loaded_tile = [[0, 0, 0, 10], [0, 0, 0, 20]]"
proof -
  have u: "[0..<2] = [0, 1 :: nat]" by code_simp
  show ?thesis
    by (simp add: tile_tuples_def oid_range_def example_loaded_tile_def example_tile_def
        tuple_at_def GetTupleLocation_def u)
qed

lemma example_wire_payload_2:
  "wire_payload raw_serializer example_loaded_tile 2 =
     [0, 0, 0, 9, 128, 0, 1, 5, 0, 0, 0, 1, 97, 0, 0, 0, 2, 0, 0, 0, 10, 0, 0, 0, 20]"
  by (simp add: wire_payload_def tuple_bytes_def example_loaded_header_bytes
      example_loaded_tuples raw_serializer_def be32_def)

lemma example_wire_payload_0:
  "wire_payload raw_serializer example_loaded_tile 0 =
     [0, 0, 0, 9, 128, 0, 1, 5, 0, 0, 0, 1, 97, 0, 0, 0, 0]"
  by (simp add: wire_payload_def tuple_bytes_def example_loaded_header_bytes
      example_loaded_tuples raw_serializer_def be32_def)

lemma example_serialize_2:
  "SerializeTo 0xFFFFFFFF raw_serializer example_loaded_tile [] 2 =
     (Inr True, cache_header example_loaded_tile,
      [0, 0, 0, 25,
       0, 0, 0, 9, 128, 0, 1, 5, 0, 0, 0, 1, 97, 0, 0, 0, 2, 0, 0, 0, 10, 0, 0, 0, 20])"
proof -
  have "SerializeTo 0xFFFFFFFF raw_serializer example_loaded_tile [] 2 =
          (Inr True, cache_header example_loaded_tile,
           [] @ be32 (of_nat (length (wire_payload raw_serializer example_loaded_tile 2))) @
           wire_payload raw_serializer example_loaded_tile 2)"
  proof (rule SerializeTo_ok [OF example_loaded_representable example_loaded_cache_ok])
    show "2 \<le> num_tuple_slots example_loaded_tile"
      by (simp add: example_loaded_tile_def example_tile_def)
    show "length (wire_payload raw_serializer example_loaded_tile 2) < 2 ^ 31"
      by (simp add: example_wire_payload_2)
  qed
  then show ?thesis by (simp add: example_wire_payload_2 be32_def)
qed

lemma example_serialize_0:
  "SerializeTo 0xFFFFFFFF raw_serializer example_loaded_tile [] 0 =
     (Inr True, cache_header example_loaded_tile,
      [0, 0, 0, 17, 0, 0, 0, 9, 128, 0, 1, 5, 0, 0, 0, 1, 97, 0, 0, 0, 0])"
proof -
  have "SerializeTo 0xFFFFFFFF raw_serializer example_loaded_tile [] 0 =
          (Inr True, cache_header example_loaded_tile,
           [] @ be32 (of_nat (length (wire_payload raw_serializer example_loaded_tile 0))) @
           wire_payload raw_serializer example_loaded_tile 0)"
    by (rule SerializeTo_ok [OF example_loaded_representable example_loaded_cache_ok])
       (simp_all add: example_wire_payload_0)
  then show ?thesis by (simp add: example_wire_payload_0 be32_def)
qed

text \<open>
  C3, as stated, fails. \<open>SerializeTo\<close> starts its output with the total size, which
  \<open>DeserializeTuplesFrom\<close> does not expect: fed the whole output for two tuples, it takes
  the total size for the row start and bytes of the header size for the column count,
  which is then zero, and the assertion \<open>column_count > 0\<close> fails. And for \<open>n = 0\<close> the
  output, even without its total size, fails the assertion \<open>tuple_count > 0\<close>.
\<close>

theorem serialize_deserialize_counterexample:
  "SerializeTo 0xFFFFFFFF raw_serializer example_loaded_tile [] 2 =
     (Inr True, cache_header example_loaded_tile,
      [0, 0, 0, 25,
       0, 0, 0, 9, 128, 0, 1, 5, 0, 0, 0, 1, 97, 0, 0, 0, 2, 0, 0, 0, 10, 0, 0, 0, 20]) \<and>
   DeserializeTuplesFrom raw_deserializer (example_tile 2)
     [0, 0, 0, 25,
      0, 0, 0, 9, 128, 0, 1, 5, 0, 0, 0, 1, 97, 0, 0, 0, 2, 0, 0, 0, 10, 0, 0, 0, 20] =
     (Inl AssertionFailure, example_tile 2,
      [9, 128, 0, 1, 5, 0, 0, 0, 1, 97, 0, 0, 0, 2, 0, 0, 0, 10, 0, 0, 0, 20]) \<and>
   SerializeTo 0xFFFFFFFF raw_serializer example_loaded_tile [] 0 =
     (Inr True, cache_header example_loaded_tile,
      [0, 0, 0, 17, 0, 0, 0, 9, 128, 0, 1, 5, 0, 0, 0, 1, 97, 0, 0, 0, 0]) \<and>
   DeserializeTuplesFrom raw_deserializer (example_tile 2)
     [0, 0, 0, 9, 128, 0, 1, 5, 0, 0, 0, 1, 97, 0, 0, 0, 0] =
     (Inl AssertionFailure, example_tile 2, [])"
proof -
  have a: "DeserializeTuplesFrom raw_deserializer (example_tile 2)
     [0, 0, 0, 25,
      0, 0, 0, 9, 128, 0, 1, 5, 0, 0, 0, 1, 97, 0, 0, 0, 2, 0, 0, 0, 10, 0, 0, 0, 20] =
     (Inl AssertionFailure, example_tile 2,
      [9, 128, 0, 1, 5, 0, 0, 0, 1, 97, 0, 0, 0, 2, 0, 0, 0, 10, 0, 0, 0, 20])"
    by (simp add: DeserializeTuplesFrom_def)
  have b: "DeserializeTuplesFrom raw_deserializer (example_tile 2)
     [0, 0, 0, 9, 128, 0, 1, 5, 0, 0, 0, 1, 97, 0, 0, 0, 0] =
     (Inl AssertionFailure, example_tile 2, [])"
    by (simp add: DeserializeTuplesFrom_def DeserializeTuplesFromWithoutHeader_def
        ReadEnumInSingleByte_def ReadTextString_def GetColumnCount_def example_tile_def
        example_schema_def)
  show ?thesis using example_serialize_2 example_serialize_0 a b by simp
qed

text \<open>
  C3, amended. Let the header of a tile be representable, its column count be the
  schema's, non-zero and below \<open>2^15\<close>, and let \<open>0 < n \<le> tuple_count\<close> with a payload of
  less than \<open>2^31\<close> bytes. Then \<open>SerializeTo\<close> writes the total size followed by the
  payload, and \<open>DeserializeTuplesFrom\<close>, given the payload (the output after its four-byte
  total size), loads it into a fresh well-formed tile of the same schema with at least
  \<open>n\<close> slots, whose first \<open>n\<close> tuples then equal the first \<open>n\<close> tuples of the tile,
  provided the tuple deserializer reads back what the tuple serializer wrote.
\<close>

theorem serialize_deserialize_round_trip:
  assumes "header_representable INVALID_ID tile" and "header_cache_ok INVALID_ID tile"
    and "tile_wf tile"
    and "column_count tile = GetColumnCount (schema tile)" and "column_count tile \<noteq> 0"
    and "unat (column_count tile) < 2 ^ 15"
    and "0 < n" and "n \<le> num_tuple_slots tile"
    and "length (wire_payload ser tile n) < 2 ^ 31"
    and "tile_wf fresh" and "schema fresh = schema tile"
    and "tuple_length fresh = tuple_length tile" and "n \<le> num_tuple_slots fresh"
    and "fills_slot des fresh"
    and "codec_round_trip ser des (schema tile) (tuple_length tile) tuple_equal"
  shows "SerializeTo INVALID_ID ser tile out0 n =
           (Inr True, cache_header tile,
            out0 @ be32 (of_nat (length (wire_payload ser tile n))) @ wire_payload ser tile n) \<and>
         (\<exists>loaded. DeserializeTuplesFrom des fresh (wire_payload ser tile n @ rest) =
                     (Inr (), loaded, rest) \<and>
            (\<forall>j. j < n \<longrightarrow> tuple_equal (tuple_at tile j) (tuple_at loaded j)))"
proof
  show "SerializeTo INVALID_ID ser tile out0 n =
           (Inr True, cache_header tile,
            out0 @ be32 (of_nat (length (wire_payload ser tile n))) @ wire_payload ser tile n)"
    by (rule SerializeTo_ok [OF assms(1,2,8,9)])
  show "\<exists>loaded. DeserializeTuplesFrom des fresh (wire_payload ser tile n @ rest) =
                     (Inr (), loaded, rest) \<and>
            (\<forall>j. j < n \<longrightarrow> tuple_equal (tuple_at tile j) (tuple_at loaded j))"
    by (rule DeserializeTuplesFrom_payload
        [OF assms(1) assms(3) assms(4) assms(5) assms(6) assms(7) assms(8) assms(10)
            assms(11) assms(12) assms(13) assms(14) assms(15)])
qed

lemma raw_codec_round_trip:
  "codec_round_trip raw_serializer raw_deserializer s (schema_length s) (=)"
  by (simp add: codec_round_trip_def raw_serializer_def raw_deserializer_def)

theorem serialize_deserialize_round_trip_witness:
  "SerializeTo 0xFFFFFFFF raw_serializer example_loaded_tile [] 2 =
     (Inr True, cache_header example_loaded_tile,
      [0, 0, 0, 25,
       0, 0, 0, 9, 128, 0, 1, 5, 0, 0, 0, 1, 97, 0, 0, 0, 2, 0, 0, 0, 10, 0, 0, 0, 20]) \<and>
   (\<exists>loaded. DeserializeTuplesFrom raw_deserializer (example_tile 2)
                [0, 0, 0, 9, 128, 0, 1, 5, 0, 0, 0, 1, 97, 0, 0, 0, 2, 0, 0, 0, 10, 0, 0, 0, 20] =
                (Inr (), loaded, []) \<and>
              tuple_at loaded 0 = [0, 0, 0, 10] \<and> tuple_at loaded 1 = [0, 0, 0, 20])"
proof -
  have f: "column_count example_loaded_tile = GetColumnCount (schema example_loaded_tile)"
    "column_count example_loaded_tile \<noteq> 0" "unat (column_count example_loaded_tile) < 2 ^ 15"
    "(0 :: oid_t) < 2" "2 \<le> num_tuple_slots example_loaded_tile"
    "schema (example_tile 2) = schema example_loaded_tile"
    "tuple_length (example_tile 2) = tuple_length example_loaded_tile"
    "2 \<le> num_tuple_slots (example_tile 2)"
    by (simp_all add: example_loaded_tile_def example_tile_def GetColumnCount_def
        example_schema_def)
  have sz: "length (wire_payload raw_serializer example_loaded_tile 2) < 2 ^ 31"
    by (simp add: example_wire_payload_2)
  have c: "codec_round_trip raw_serializer raw_deserializer (schema example_loaded_tile)
             (tuple_length example_loaded_tile) (=)"
    using raw_codec_round_trip [of example_schema]
    by (simp add: example_loaded_tile_def example_tile_def example_schema_def)
  have t: "tuple_at example_loaded_tile 0 = [0, 0, 0, 10]"
    "tuple_at example_loaded_tile 1 = [0, 0, 0, 20]"
    by (simp_all add: tuple_at_def example_loaded_tile_def example_tile_def GetTupleLocation_def)
  note w = serialize_deserialize_round_trip [OF example_loaded_representable
      example_loaded_cache_ok example_loaded_wf f(1) f(2) f(3) f(4) f(5) sz
      example_tile_wf [of 2] f(6) f(7) f(8) raw_fills_slot [of 2] c, of "[]" "[]"]
  from w obtain loaded where
    l: "DeserializeTuplesFrom raw_deserializer (example_tile 2)
          (wire_payload raw_serializer example_loaded_tile 2 @ []) = (Inr (), loaded, [])"
      "\<forall>j. j < 2 \<longrightarrow> tuple_at example_loaded_tile j = tuple_at loaded j"
    by blast
  from l(2) have "tuple_at example_loaded_tile 0 = tuple_at loaded 0"
    "tuple_at example_loaded_tile 1 = tuple_at loaded 1"
    by simp_all
  with t have "tuple_at loaded 0 = [0, 0, 0, 10]" "tuple_at loaded 1 = [0, 0, 0, 20]"
    by simp_all
  with l(1) w show ?thesis
    by (auto simp: example_wire_payload_2 be32_def)
qed

end
